theory Spec2Isabelle
  imports Main
begin

section \<open>The realtime indexing store of Ponder\<close>

text \<open>
  This theory embeds \<^verbatim>\<open>packages/core/src/indexing-store/realtime.ts\<close>: the
  store that indexing functions use to read and write rows of onchain tables
  (\<^verbatim>\<open>find\<close>, \<^verbatim>\<open>insert\<close>, \<^verbatim>\<open>update\<close>, \<^verbatim>\<open>delete\<close>).

  The escape hatch \<^verbatim>\<open>sql\<close>, which hands raw SQL to the database, is not embedded.

  The store is asynchronous JavaScript over a PostgreSQL database. Here every
  operation is a function from the database state to an outcome and the new
  database state. A rejected promise (a thrown exception) is the outcome
  \<open>Inl e\<close>; the database state is returned in every case, because a statement
  that was committed before the exception stays committed.
\<close>

subsection \<open>Rows, tables and the schema\<close>

text \<open>
  A row is a JavaScript object read as a finite map from column names to
  values. A column that the object does not bind is \<^verbatim>\<open>undefined\<close> in
  JavaScript and \<^verbatim>\<open>NULL\<close> in the database.
\<close>

datatype val = VInt int | VText string | VBool bool

type_synonym row = "string \<rightharpoonup> val"

text \<open>
  What the store reads from a drizzle \<^verbatim>\<open>Table\<close> object:
  \<^item> \<open>name\<close>: \<^verbatim>\<open>getTableConfig(table).name\<close>, the name of the physical table;
  \<^item> \<open>user\<close>: the \<^verbatim>\<open>user\<close> name that \<^verbatim>\<open>getTableNames\<close> reports for it;
  \<^item> \<open>primaryKey\<close>: the \<^verbatim>\<open>js\<close> names of \<^verbatim>\<open>getPrimaryKeyColumns(table)\<close>;
  \<^item> \<open>onchain\<close>: the value of \<^verbatim>\<open>onchain in table\<close>.
  The functions \<^verbatim>\<open>getTableNames\<close> and \<^verbatim>\<open>getPrimaryKeyColumns\<close> live in
  \<^verbatim>\<open>drizzle/index.ts\<close>; their results are taken as fields of the table.
\<close>

record pgtable =
  name :: string
  user :: string
  primaryKey :: "string list"
  onchain :: bool

type_synonym schema = "pgtable list"

subsection \<open>Errors\<close>

text \<open>
  \<open>sql_error\<close> is what PostgreSQL raises for a statement; the other errors are
  the classes of \<^verbatim>\<open>common/errors.ts\<close> that the store throws itself, with their
  message, and the \<^verbatim>\<open>TypeError\<close> of JavaScript.
\<close>

datatype sql_error = UniqueViolation | NotNullViolation | CardinalityViolation

datatype error =
    UndefinedTableError string
  | InvalidStoreMethodError string
  | RecordNotFoundError string
  | TypeError
  | DatabaseError sql_error

subsection \<open>The database\<close>

text \<open>
  A where condition is the conjunction \<^verbatim>\<open>and(eq(c1, v1), ..., eq(cn, vn))\<close>, kept as
  the list of its column names and values. The statements are the ones that the
  store builds with \<^verbatim>\<open>database.drizzle\<close>; each carries the name of its table.
\<close>

type_synonym cond = "(string \<times> val option) list"

datatype statement =
    SqlSelect string cond
  | SqlInsert string "row list"
  | SqlInsertOnConflictDoNothing string "row list"
  | SqlInsertOnConflictDoUpdate string "string list" "row list" row
  | SqlUpdate string row cond
  | SqlDelete string cond

text \<open>
  Modelled from the spec: the journal \<^verbatim>\<open>{instance_id}_reorg__T\<close> and the writing of
  its rows, which is not done in \<^verbatim>\<open>realtime.ts\<close> but by the database (section 3,
  "Journal row", and section 4.E): a journal row is
  \<^verbatim>\<open>{operation, checkpoint, primary_key, before_image?}\<close>, with no before image for
  an insert, and it is inserted atomically with the user write it shadows. A
  checkpoint is \<^verbatim>\<open>(chainId, blockTimestamp, blockNumber, transactionIndex, eventIndex)\<close>.
\<close>

datatype operation = OpInsert | OpUpdate | OpDelete

type_synonym checkpoint = "nat \<times> nat \<times> nat \<times> nat \<times> nat"

record journal_row =
  operation :: operation
  jcheckpoint :: checkpoint
  primary_key :: "val option list"
  before_image :: "row option"

text \<open>
  The state of the database: the rows of every physical table, the journal of
  every table, the checkpoint of the event whose handler is running, and the
  statements issued so far, oldest first.
\<close>

record database =
  tables :: "string \<Rightarrow> row list"
  reorg :: "string \<Rightarrow> journal_row list"
  checkpoint :: checkpoint
  queries :: "statement list"

definition issue :: "statement \<Rightarrow> database \<Rightarrow> database" where
  "issue q db = db\<lparr>queries := queries db @ [q]\<rparr>"

definition pk_of :: "string list \<Rightarrow> row \<Rightarrow> val option list" where
  "pk_of pks r = map r pks"

text \<open>
  \<^verbatim>\<open>eq(column, value)\<close> holds of a row when the column is not \<^verbatim>\<open>NULL\<close> and equals
  the value; a comparison with \<^verbatim>\<open>NULL\<close> is never true.
\<close>

definition holds :: "cond \<Rightarrow> row \<Rightarrow> bool" where
  "holds c r = list_all (\<lambda>(col, v). v \<noteq> None \<and> r col = v) c"

text \<open>
  Modelled from the spec: the journal rows that the database writes for the rows
  an insert adds, and for the rows an update or a delete finds.
\<close>

definition journal_insert :: "checkpoint \<Rightarrow> string list \<Rightarrow> row \<Rightarrow> journal_row" where
  "journal_insert cp pks r =
     \<lparr>operation = OpInsert, jcheckpoint = cp, primary_key = pk_of pks r, before_image = None\<rparr>"

definition journal_before :: "operation \<Rightarrow> checkpoint \<Rightarrow> string list \<Rightarrow> row \<Rightarrow> journal_row" where
  "journal_before op cp pks r =
     \<lparr>operation = op, jcheckpoint = cp, primary_key = pk_of pks r, before_image = Some r\<rparr>"

text \<open>
  Modelled from the spec: a statement commits the new rows of its table together
  with the journal rows of its writes, in one step.
\<close>

definition commit :: "pgtable \<Rightarrow> row list \<Rightarrow> journal_row list \<Rightarrow> database \<Rightarrow> database" where
  "commit t rows js db =
     db\<lparr>tables := (tables db)(name t := rows),
        reorg := (reorg db)(name t := reorg db (name t) @ js)\<rparr>"

subsubsection \<open>The statements\<close>

text \<open>
  \<^verbatim>\<open>database.drizzle\<close> is the query builder of the drizzle library over PostgreSQL.
  Its statements are modelled as PostgreSQL runs them on a table whose only
  constraint is its primary key: the primary-key columns are not null and no two
  rows agree on all of them. A statement is one transaction: it either commits
  all its rows and their journal rows, or raises and changes no table. The
  checks that drizzle makes on its arguments before it builds a statement are
  left out.
\<close>

definition drizzle_select :: "pgtable \<Rightarrow> cond \<Rightarrow> database \<Rightarrow> row list \<times> database" where
  "drizzle_select t c db =
     (filter (holds c) (tables db (name t)), issue (SqlSelect (name t) c) db)"

text \<open>\<^verbatim>\<open>INSERT INTO t VALUES ... RETURNING *\<close>: the rows are added one after the other.\<close>

fun insert_rows :: "string list \<Rightarrow> row list \<Rightarrow> row list \<Rightarrow> sql_error + row list" where
  "insert_rows pks cur [] = Inr cur"
| "insert_rows pks cur (v # vs) =
     (if \<exists>c \<in> set pks. v c = None then Inl NotNullViolation
      else if pk_of pks v \<in> set (map (pk_of pks) cur) then Inl UniqueViolation
      else insert_rows pks (cur @ [v]) vs)"

definition drizzle_insert ::
  "pgtable \<Rightarrow> row list \<Rightarrow> database \<Rightarrow> (sql_error + row list) \<times> database" where
  "drizzle_insert t vs db =
     (let db1 = issue (SqlInsert (name t) vs) db in
      case insert_rows (primaryKey t) (tables db (name t)) vs of
        Inl e \<Rightarrow> (Inl e, db1)
      | Inr rows \<Rightarrow>
          (Inr vs, commit t rows (map (journal_insert (checkpoint db) (primaryKey t)) vs) db1))"

text \<open>
  \<^verbatim>\<open>INSERT ... ON CONFLICT DO NOTHING RETURNING *\<close>: a row whose primary key is
  taken is skipped; the result is the table and the rows that were inserted.
\<close>

fun insert_rows_do_nothing ::
  "string list \<Rightarrow> row list \<Rightarrow> row list \<Rightarrow> row list \<Rightarrow> sql_error + row list \<times> row list" where
  "insert_rows_do_nothing pks cur ins [] = Inr (cur, ins)"
| "insert_rows_do_nothing pks cur ins (v # vs) =
     (if \<exists>c \<in> set pks. v c = None then Inl NotNullViolation
      else if pk_of pks v \<in> set (map (pk_of pks) cur) then insert_rows_do_nothing pks cur ins vs
      else insert_rows_do_nothing pks (cur @ [v]) (ins @ [v]) vs)"

definition drizzle_insert_onConflictDoNothing ::
  "pgtable \<Rightarrow> row list \<Rightarrow> database \<Rightarrow> (sql_error + row list) \<times> database" where
  "drizzle_insert_onConflictDoNothing t vs db =
     (let db1 = issue (SqlInsertOnConflictDoNothing (name t) vs) db in
      case insert_rows_do_nothing (primaryKey t) (tables db (name t)) [] vs of
        Inl e \<Rightarrow> (Inl e, db1)
      | Inr (rows, ins) \<Rightarrow>
          (Inr ins, commit t rows (map (journal_insert (checkpoint db) (primaryKey t)) ins) db1))"

text \<open>
  \<^verbatim>\<open>INSERT ... ON CONFLICT (target) DO UPDATE SET s RETURNING *\<close>, the native upsert:
  a row whose target columns are taken updates the row that holds them with \<open>s\<close>,
  any other row is inserted. The statement may not touch a row twice, and an
  update may not move a row onto the primary key of another one. The result is
  the table, the rows written and their journal rows; \<open>seen\<close> holds the primary
  keys that the statement has written.
\<close>

fun upsert_rows ::
  "checkpoint \<Rightarrow> string list \<Rightarrow> string list \<Rightarrow> row \<Rightarrow> val option list list \<Rightarrow> row list \<Rightarrow>
   row list \<Rightarrow> journal_row list \<Rightarrow> row list \<Rightarrow>
   sql_error + row list \<times> row list \<times> journal_row list" where
  "upsert_rows cp pks target s seen cur out js [] = Inr (cur, out, js)"
| "upsert_rows cp pks target s seen cur out js (v # vs) =
     (if \<exists>c \<in> set pks. v c = None then Inl NotNullViolation
      else case filter (\<lambda>r. pk_of target r = pk_of target v) cur of
        [] \<Rightarrow>
          (if pk_of pks v \<in> set (map (pk_of pks) cur) then Inl UniqueViolation
           else upsert_rows cp pks target s (pk_of pks v # seen) (cur @ [v]) (out @ [v])
                  (js @ [journal_insert cp pks v]) vs)
      | old # _ \<Rightarrow>
          (if pk_of pks old \<in> set seen then Inl CardinalityViolation
           else if pk_of pks (old ++ s) \<noteq> pk_of pks old \<and>
                   pk_of pks (old ++ s) \<in> set (map (pk_of pks) cur) then Inl UniqueViolation
           else upsert_rows cp pks target s (pk_of pks (old ++ s) # seen)
                  (map (\<lambda>r. if pk_of pks r = pk_of pks old then old ++ s else r) cur)
                  (out @ [old ++ s]) (js @ [journal_before OpUpdate cp pks old]) vs))"

definition drizzle_insert_onConflictDoUpdate ::
  "pgtable \<Rightarrow> row list \<Rightarrow> string list \<Rightarrow> row \<Rightarrow> database \<Rightarrow>
   (sql_error + row list) \<times> database" where
  "drizzle_insert_onConflictDoUpdate t vs target s db =
     (let db1 = issue (SqlInsertOnConflictDoUpdate (name t) target vs s) db in
      case upsert_rows (checkpoint db) (primaryKey t) target s [] (tables db (name t)) [] [] vs of
        Inl e \<Rightarrow> (Inl e, db1)
      | Inr (rows, out, js) \<Rightarrow> (Inr out, commit t rows js db1))"

text \<open>
  \<^verbatim>\<open>UPDATE t SET s WHERE c RETURNING *\<close>: every row that satisfies \<open>c\<close> takes the
  values of \<open>s\<close>. An update that finds no row changes nothing.
\<close>

definition drizzle_update ::
  "pgtable \<Rightarrow> row \<Rightarrow> cond \<Rightarrow> database \<Rightarrow> (sql_error + row list) \<times> database" where
  "drizzle_update t s c db =
     (let db1 = issue (SqlUpdate (name t) s c) db;
          cur = tables db (name t);
          old = filter (holds c) cur;
          new = map (\<lambda>r. if holds c r then r ++ s else r) cur
      in if old = [] then (Inr [], db1)
         else if \<not> distinct (map (pk_of (primaryKey t)) new) then (Inl UniqueViolation, db1)
         else (Inr (map (\<lambda>r. r ++ s) old),
               commit t new (map (journal_before OpUpdate (checkpoint db) (primaryKey t)) old) db1))"

text \<open>\<^verbatim>\<open>DELETE FROM t WHERE c RETURNING *\<close>.\<close>

definition drizzle_delete :: "pgtable \<Rightarrow> cond \<Rightarrow> database \<Rightarrow> row list \<times> database" where
  "drizzle_delete t c db =
     (let db1 = issue (SqlDelete (name t) c) db;
          cur = tables db (name t);
          old = filter (holds c) cur
      in (old, commit t (filter (\<lambda>r. \<not> holds c r) cur)
                 (map (journal_before OpDelete (checkpoint db) (primaryKey t)) old) db1))"

subsection \<open>The store\<close>

text \<open>
  \<^verbatim>\<open>createRealtimeIndexingStore\<close> fills two caches from the schema, keyed by the
  table object: the user name and the primary-key columns of every table.
\<close>

record store =
  tableNameCache :: "pgtable \<rightharpoonup> string"
  primaryKeysCache :: "pgtable \<rightharpoonup> string list"

definition createRealtimeIndexingStore :: "schema \<Rightarrow> store" where
  "createRealtimeIndexingStore schema =
     fold (\<lambda>t st. st\<lparr>primaryKeysCache := (primaryKeysCache st)(t \<mapsto> primaryKey t),
                     tableNameCache := (tableNameCache st)(t \<mapsto> user t)\<rparr>)
       schema \<lparr>tableNameCache = Map.empty, primaryKeysCache = Map.empty\<rparr>"

text \<open>
  Modelled from the spec: \<^verbatim>\<open>createQueue\<close> of \<^verbatim>\<open>common/src/queue.ts\<close>, with
  \<^verbatim>\<open>concurrency: 1\<close> and the worker \<^verbatim>\<open>(fn) => fn()\<close>. The spec has the operations
  of a handler run strictly serialized, in submission order; a handler awaits
  each operation, so adding a task runs it on the current database.
\<close>

definition queue_add :: "(database \<Rightarrow> 'a \<times> database) \<Rightarrow> database \<Rightarrow> 'a \<times> database" where
  "queue_add task db = task db"

text \<open>
  \<^verbatim>\<open>database.qb.user.wrap({ method }, fn)\<close> is a function of the database layer,
  which is not part of this file. It is taken to run \<open>fn\<close> once and to settle as
  \<open>fn\<close> does; its first argument is a label, made of
  \<^verbatim>\<open>tableNameCache.get(table) ?? "unknown"\<close> and the method.
\<close>

definition wrap :: "string \<Rightarrow> (database \<Rightarrow> 'a \<times> database) \<Rightarrow> database \<Rightarrow> 'a \<times> database" where
  "wrap method fn db = fn db"

definition method_label :: "store \<Rightarrow> pgtable option \<Rightarrow> string \<Rightarrow> string" where
  "method_label st table method =
     (case (case table of None \<Rightarrow> None | Some t \<Rightarrow> tableNameCache st t) of
        None \<Rightarrow> ''unknown'' | Some n \<Rightarrow> n) @ ''.'' @ method @ ''()''"

text \<open>
  \<^verbatim>\<open>checkOnchainTable\<close> throws if the table is \<^verbatim>\<open>undefined\<close> (here \<open>None\<close>) or is
  not an onchain table. The source returns nothing; here the table that passed
  the check is returned.
\<close>

definition quoted :: "string \<Rightarrow> string" where
  "quoted s = [CHR 0x27] @ s @ [CHR 0x27]"

definition checkOnchainTable :: "pgtable option \<Rightarrow> string \<Rightarrow> error + pgtable" where
  "checkOnchainTable table method =
     (case table of
        None \<Rightarrow> Inl (UndefinedTableError
                  (''Table object passed to db.'' @ method @ ''() is undefined''))
      | Some t \<Rightarrow>
          if onchain t then Inr t
          else Inl (InvalidStoreMethodError
                 (if method = ''find''
                  then ''db.find() can only be used with onchain tables, and '' @
                       quoted (name t) @ '' is an offchain table.''
                  else ''Indexing functions can only write to onchain tables, and '' @
                       quoted (name t) @ '' is an offchain table.'')))"

text \<open>
  \<^verbatim>\<open>getWhereCondition\<close>: one \<^verbatim>\<open>eq(table[js], key[js])\<close> for every primary-key column
  of the cache. For a table that is not in the cache, iterating over
  \<^verbatim>\<open>undefined\<close> throws a \<^verbatim>\<open>TypeError\<close>.
\<close>

definition getWhereCondition :: "store \<Rightarrow> pgtable \<Rightarrow> row \<Rightarrow> error + cond" where
  "getWhereCondition st table key =
     (case primaryKeysCache st table of
        None \<Rightarrow> Inl TypeError
      | Some pks \<Rightarrow> Inr (map (\<lambda>js. (js, key js)) pks))"

text \<open>
  The inner \<^verbatim>\<open>find\<close>, here \<open>find_row\<close> (the list library has a \<open>find\<close>): the first
  row of the select, or \<^verbatim>\<open>null\<close> (here \<open>None\<close>).
\<close>

definition find_row :: "store \<Rightarrow> pgtable \<Rightarrow> row \<Rightarrow> database \<Rightarrow> (error + row option) \<times> database" where
  "find_row st table key db =
     (case getWhereCondition st table key of
        Inl e \<Rightarrow> (Inl e, db)
      | Inr c \<Rightarrow>
          (case drizzle_select table c db of
             (res, db1) \<Rightarrow> (Inr (case res of [] \<Rightarrow> None | r # _ \<Rightarrow> Some r), db1)))"

definition indexingStore_find ::
  "store \<Rightarrow> pgtable option \<Rightarrow> row \<Rightarrow> database \<Rightarrow> (error + row option) \<times> database" where
  "indexingStore_find st table key =
     queue_add (wrap (method_label st table ''find'')
       (\<lambda>db. case checkOnchainTable table ''find'' of
                Inl e \<Rightarrow> (Inl e, db)
              | Inr t \<Rightarrow> find_row st t key db))"

text \<open>
  A failed statement is caught, handed to \<^verbatim>\<open>parseSqlError\<close> and thrown again
  (\<^verbatim>\<open>parseSqlError(e); throw e\<close>): the error of the database is the error of the
  operation.
\<close>

definition rethrow :: "(sql_error + 'a) \<times> database \<Rightarrow> (error + 'a) \<times> database" where
  "rethrow r = (case r of (Inl e, db) \<Rightarrow> (Inl (DatabaseError e), db) | (Inr x, db) \<Rightarrow> (Inr x, db))"

text \<open>
  The argument of \<^verbatim>\<open>values\<close> is one row or an array of rows
  (\<^verbatim>\<open>Array.isArray(values)\<close>); drizzle inserts the one row as an array of one.
\<close>

datatype insert_values = Single row | Array "row list"

fun as_rows :: "insert_values \<Rightarrow> row list" where
  "as_rows (Single v) = [v]"
| "as_rows (Array vs) = vs"

text \<open>
  The argument of \<^verbatim>\<open>onConflictDoUpdate\<close> and of \<^verbatim>\<open>set\<close> is an object or a function
  from the existing row to an object (\<^verbatim>\<open>typeof values\<close>).
\<close>

datatype set_values = SetObject row | SetFunction "row \<Rightarrow> row"

definition insert_onConflictDoNothing ::
  "store \<Rightarrow> pgtable option \<Rightarrow> insert_values \<Rightarrow> database \<Rightarrow> (error + row list) \<times> database" where
  "insert_onConflictDoNothing st table values =
     queue_add (wrap (method_label st table ''insert'')
       (\<lambda>db. case checkOnchainTable table ''insert'' of
                Inl e \<Rightarrow> (Inl e, db)
              | Inr t \<Rightarrow> rethrow (drizzle_insert_onConflictDoNothing t (as_rows values) db)))"

text \<open>
  \<^verbatim>\<open>onConflictDoUpdate\<close> with a function returns, for an array, the array of the
  results of the statements, and for one row the result of its statement.
\<close>

datatype upsert_result = Rows "row list" | RowsList "row list list"

text \<open>
  One row of the function case, which the source writes out twice (in the loop
  over an array, and for one row): \<^verbatim>\<open>find\<close> by the row itself, then a plain insert
  of the row if nothing was found, else an update of the found row with
  \<^verbatim>\<open>valuesU(row)\<close>.
\<close>

definition upsert_one ::
  "store \<Rightarrow> pgtable \<Rightarrow> (row \<Rightarrow> row) \<Rightarrow> row \<Rightarrow> database \<Rightarrow> (error + row list) \<times> database" where
  "upsert_one st t valuesU v db =
     (case find_row st t v db of
        (Inl e, db1) \<Rightarrow> (Inl e, db1)
      | (Inr None, db1) \<Rightarrow> rethrow (drizzle_insert t [v] db1)
      | (Inr (Some r), db1) \<Rightarrow>
          (case getWhereCondition st t v of
             Inl e \<Rightarrow> (Inl e, db1)
           | Inr c \<Rightarrow> rethrow (drizzle_update t (valuesU r) c db1)))"

text \<open>The loop \<^verbatim>\<open>for (const value of values)\<close>; \<open>rows\<close> collects the results.\<close>

fun upsert_loop ::
  "store \<Rightarrow> pgtable \<Rightarrow> (row \<Rightarrow> row) \<Rightarrow> row list list \<Rightarrow> row list \<Rightarrow> database \<Rightarrow>
   (error + row list list) \<times> database" where
  "upsert_loop st t valuesU rows [] db = (Inr rows, db)"
| "upsert_loop st t valuesU rows (v # vs) db =
     (case upsert_one st t valuesU v db of
        (Inl e, db1) \<Rightarrow> (Inl e, db1)
      | (Inr res, db1) \<Rightarrow> upsert_loop st t valuesU (rows @ [res]) vs db1)"

definition map_outcome :: "('a \<Rightarrow> 'b) \<Rightarrow> (error + 'a) \<times> database \<Rightarrow> (error + 'b) \<times> database" where
  "map_outcome f r = (case r of (Inl e, db) \<Rightarrow> (Inl e, db) | (Inr x, db) \<Rightarrow> (Inr (f x), db))"

definition insert_onConflictDoUpdate ::
  "store \<Rightarrow> pgtable option \<Rightarrow> insert_values \<Rightarrow> set_values \<Rightarrow> database \<Rightarrow>
   (error + upsert_result) \<times> database" where
  "insert_onConflictDoUpdate st table values valuesU =
     queue_add (wrap (method_label st table ''insert'')
       (\<lambda>db. case checkOnchainTable table ''insert'' of
                Inl e \<Rightarrow> (Inl e, db)
              | Inr t \<Rightarrow>
                  (case valuesU of
                     SetObject s \<Rightarrow>
                       (case primaryKeysCache st t of
                          None \<Rightarrow> (Inl TypeError, db)
                        | Some target \<Rightarrow>
                            map_outcome Rows
                              (rethrow (drizzle_insert_onConflictDoUpdate t (as_rows values)
                                          target s db)))
                   | SetFunction f \<Rightarrow>
                       (case values of
                          Array vs \<Rightarrow> map_outcome RowsList (upsert_loop st t f [] vs db)
                        | Single v \<Rightarrow> map_outcome Rows (upsert_one st t f v db)))))"

text \<open>
  The object that \<^verbatim>\<open>values\<close> returns is a thenable. \<^verbatim>\<open>then\<close> runs the plain insert
  and hands its outcome to \<^verbatim>\<open>Promise.prototype.then\<close>; a callback that is
  \<^verbatim>\<open>undefined\<close> (here \<open>None\<close>) lets the outcome through. The callbacks here do not
  use the database.
\<close>

definition promise_then ::
  "error + 'a \<Rightarrow> ('a \<Rightarrow> error + 'a) option \<Rightarrow> (error \<Rightarrow> error + 'a) option \<Rightarrow> error + 'a" where
  "promise_then p onFulfilled onRejected =
     (case p of
        Inr v \<Rightarrow> (case onFulfilled of None \<Rightarrow> Inr v | Some f \<Rightarrow> f v)
      | Inl e \<Rightarrow> (case onRejected of None \<Rightarrow> Inl e | Some g \<Rightarrow> g e))"

definition insert_then ::
  "store \<Rightarrow> pgtable option \<Rightarrow> insert_values \<Rightarrow>
   (row list \<Rightarrow> error + row list) option \<Rightarrow> (error \<Rightarrow> error + row list) option \<Rightarrow>
   database \<Rightarrow> (error + row list) \<times> database" where
  "insert_then st table values onFulfilled onRejected db =
     (case queue_add (wrap (method_label st table ''insert'')
              (\<lambda>db. case checkOnchainTable table ''insert'' of
                       Inl e \<Rightarrow> (Inl e, db)
                     | Inr t \<Rightarrow> rethrow (drizzle_insert t (as_rows values) db))) db of
        (p, db1) \<Rightarrow> (promise_then p onFulfilled onRejected, db1))"

definition insert_catch ::
  "store \<Rightarrow> pgtable option \<Rightarrow> insert_values \<Rightarrow> (error \<Rightarrow> error + row list) option \<Rightarrow>
   database \<Rightarrow> (error + row list) \<times> database" where
  "insert_catch st table values onRejected = insert_then st table values None onRejected"

text \<open>
  \<^verbatim>\<open>onFinally?.()\<close>: the callback, if there is one, runs and may throw (\<open>Some e\<close>).
\<close>

definition call_onFinally :: "(unit \<Rightarrow> error option) option \<Rightarrow> error + 'a \<Rightarrow> error + 'a" where
  "call_onFinally onFinally k =
     (case onFinally of
        None \<Rightarrow> k
      | Some f \<Rightarrow> (case f () of Some e \<Rightarrow> Inl e | None \<Rightarrow> k))"

definition insert_finally ::
  "store \<Rightarrow> pgtable option \<Rightarrow> insert_values \<Rightarrow> (unit \<Rightarrow> error option) option \<Rightarrow>
   database \<Rightarrow> (error + row list) \<times> database" where
  "insert_finally st table values onFinally =
     insert_then st table values
       (Some (\<lambda>value. call_onFinally onFinally (Inr value)))
       (Some (\<lambda>reason. call_onFinally onFinally (Inl reason)))"

text \<open>
  \<^verbatim>\<open>await\<close> of a thenable calls its \<^verbatim>\<open>then\<close> with the two functions that settle
  the awaiting code: the outcome of the thenable is the outcome of the \<^verbatim>\<open>await\<close>.
\<close>

definition await ::
  "(('a \<Rightarrow> error + 'a) option \<Rightarrow> (error \<Rightarrow> error + 'a) option \<Rightarrow> 'b) \<Rightarrow> 'b" where
  "await thenable = thenable (Some Inr) (Some Inl)"

text \<open>\<^verbatim>\<open>update(table, key).set(values)\<close>.\<close>

definition indexingStore_update ::
  "store \<Rightarrow> pgtable option \<Rightarrow> row \<Rightarrow> set_values \<Rightarrow> database \<Rightarrow>
   (error + row list) \<times> database" where
  "indexingStore_update st table key values =
     queue_add (wrap (method_label st table ''update'')
       (\<lambda>db. case checkOnchainTable table ''update'' of
                Inl e \<Rightarrow> (Inl e, db)
              | Inr t \<Rightarrow>
                  (case values of
                     SetFunction f \<Rightarrow>
                       (case find_row st t key db of
                          (Inl e, db1) \<Rightarrow> (Inl e, db1)
                        | (Inr None, db1) \<Rightarrow>
                            (Inl (RecordNotFoundError
                               (''No existing record found in table '' @
                                quoted (case tableNameCache st t of
                                          None \<Rightarrow> ''undefined'' | Some n \<Rightarrow> n))), db1)
                        | (Inr (Some r), db1) \<Rightarrow>
                            (case getWhereCondition st t key of
                               Inl e \<Rightarrow> (Inl e, db1)
                             | Inr c \<Rightarrow> rethrow (drizzle_update t (f r) c db1)))
                   | SetObject s \<Rightarrow>
                       (case getWhereCondition st t key of
                          Inl e \<Rightarrow> (Inl e, db)
                        | Inr c \<Rightarrow> rethrow (drizzle_update t s c db)))))"

text \<open>\<^verbatim>\<open>delete(table, key)\<close>: whether the statement returned a deleted row.\<close>

definition indexingStore_delete ::
  "store \<Rightarrow> pgtable option \<Rightarrow> row \<Rightarrow> database \<Rightarrow> (error + bool) \<times> database" where
  "indexingStore_delete st table key =
     queue_add (wrap (method_label st table ''delete'')
       (\<lambda>db. case checkOnchainTable table ''delete'' of
                Inl e \<Rightarrow> (Inl e, db)
              | Inr t \<Rightarrow>
                  (case getWhereCondition st t key of
                     Inl e \<Rightarrow> (Inl e, db)
                   | Inr c \<Rightarrow>
                       (case drizzle_delete t c db of
                          (deleted, db1) \<Rightarrow> (Inr (length deleted > 0), db1)))))"

subsection \<open>Notions used in the statements\<close>

text \<open>
  A row matches a key when each of its primary-key columns is bound by the key
  and equal to the key's field.
\<close>

definition pk_equal :: "pgtable \<Rightarrow> row \<Rightarrow> row \<Rightarrow> bool" where
  "pk_equal t key r = (\<forall>js \<in> set (primaryKey t). key js \<noteq> None \<and> r js = key js)"

text \<open>The messages of \<^verbatim>\<open>checkOnchainTable\<close>.\<close>

definition undefined_table_message :: "string \<Rightarrow> string" where
  "undefined_table_message method = ''Table object passed to db.'' @ method @ ''() is undefined''"

definition find_offchain_message :: "pgtable \<Rightarrow> string" where
  "find_offchain_message t =
     ''db.find() can only be used with onchain tables, and '' @ quoted (name t) @
     '' is an offchain table.''"

definition write_offchain_message :: "pgtable \<Rightarrow> string" where
  "write_offchain_message t =
     ''Indexing functions can only write to onchain tables, and '' @ quoted (name t) @
     '' is an offchain table.''"

text \<open>The statements that an operation issued: those of \<open>db1\<close> after those of \<open>db\<close>.\<close>

definition issued :: "database \<Rightarrow> database \<Rightarrow> statement list" where
  "issued db db1 = drop (length (queries db)) (queries db1)"

text \<open>
  The where condition of a row used as a key, and the statements of a store that
  handles an array of rows one row at a time, in order: for every row a select
  by the primary key of the row, followed by the insert of that one row or by an
  update under the same condition.
\<close>

definition key_cond :: "pgtable \<Rightarrow> row \<Rightarrow> cond" where
  "key_cond t v = map (\<lambda>js. (js, v js)) (primaryKey t)"

fun per_row :: "pgtable \<Rightarrow> row list \<Rightarrow> statement list \<Rightarrow> bool" where
  "per_row t [] qs = (qs = [])"
| "per_row t (v # vs) (SqlSelect n c # SqlInsert n1 rows # qs) =
     (n = name t \<and> c = key_cond t v \<and> n1 = name t \<and> rows = [v] \<and> per_row t vs qs)"
| "per_row t (v # vs) (SqlSelect n c # SqlUpdate n1 s c1 # qs) =
     (n = name t \<and> c = key_cond t v \<and> n1 = name t \<and> c1 = key_cond t v \<and> per_row t vs qs)"
| "per_row t (v # vs) qs = False"

text \<open>
  Modelled from the spec: what it means that the journal shadows the writes of a
  table (section 4.E: every write also produces a journal row with the event's
  checkpoint and, for updates and deletes, the before image). A journal row
  shadows one write of one row: an insert that adds a row with its primary key,
  an update that replaces the row of its before image, or a delete that removes
  the row of its before image. A list of journal rows shadows the writes that
  lead from one content of the table to another when each row shadows one write
  of the sequence, in order.
\<close>

definition shadows :: "pgtable \<Rightarrow> checkpoint \<Rightarrow> journal_row \<Rightarrow> row list \<Rightarrow> row list \<Rightarrow> bool" where
  "shadows t cp j rows rows1 =
     (jcheckpoint j = cp \<and>
      (case operation j of
         OpInsert \<Rightarrow>
           before_image j = None \<and>
           (\<exists>r. primary_key j = pk_of (primaryKey t) r \<and> rows1 = rows @ [r])
       | OpUpdate \<Rightarrow>
           (\<exists>old new. before_image j = Some old \<and> primary_key j = pk_of (primaryKey t) old \<and>
              old \<in> set rows \<and> rows1 = map (\<lambda>r. if r = old then new else r) rows)
       | OpDelete \<Rightarrow>
           (\<exists>old. before_image j = Some old \<and> primary_key j = pk_of (primaryKey t) old \<and>
              old \<in> set rows \<and> rows1 = filter (\<lambda>r. r \<noteq> old) rows)))"

fun journal_steps ::
  "pgtable \<Rightarrow> checkpoint \<Rightarrow> journal_row list \<Rightarrow> row list \<Rightarrow> row list \<Rightarrow> bool" where
  "journal_steps t cp [] rows rows1 = (rows1 = rows)"
| "journal_steps t cp (j # js) rows rows1 =
     (\<exists>mid. shadows t cp j rows mid \<and> journal_steps t cp js mid rows1)"

text \<open>
  The effect of a store operation on table \<open>t\<close> is journalled when the journal
  of \<open>t\<close> has grown by rows that shadow the writes to \<open>t\<close>, under the checkpoint
  of the running event, and no other table or journal has changed.
\<close>

definition journalled :: "pgtable \<Rightarrow> database \<Rightarrow> database \<Rightarrow> bool" where
  "journalled t db db1 =
     (checkpoint db1 = checkpoint db \<and>
      (\<forall>n. n \<noteq> name t \<longrightarrow> tables db1 n = tables db n \<and> reorg db1 n = reorg db n) \<and>
      (\<exists>js. reorg db1 (name t) = reorg db (name t) @ js \<and>
            journal_steps t (checkpoint db) js (tables db (name t)) (tables db1 (name t))))"

text \<open>
  Modelled from the spec: the journal row of one written row. For a row that an
  insert added it is the insert row of that row; for a row that an update wrote
  it is the update row with the before image that the written row was made from.
\<close>

definition journal_row_of :: "pgtable \<Rightarrow> checkpoint \<Rightarrow> row \<Rightarrow> journal_row \<Rightarrow> bool" where
  "journal_row_of t cp r j =
     (j = journal_insert cp (primaryKey t) r \<or>
      (\<exists>old s. r = old ++ s \<and> j = journal_before OpUpdate cp (primaryKey t) old))"

text \<open>The primary key of a table is kept: no two rows agree on it.\<close>

definition wf_table :: "pgtable \<Rightarrow> database \<Rightarrow> bool" where
  "wf_table t db = distinct (map (pk_of (primaryKey t)) (tables db (name t)))"

text \<open>A store operation is atomic when its failure leaves every table and journal as it was.\<close>

definition atomic :: "database \<Rightarrow> (error + 'a) \<times> database \<Rightarrow> bool" where
  "atomic db r = (case r of (Inl e, db1) \<Rightarrow> tables db1 = tables db \<and> reorg db1 = reorg db
                          | (Inr x, db1) \<Rightarrow> True)"

text \<open>\<^verbatim>\<open>onConflictDoUpdate\<close> with a function, on a table of the store of a schema.\<close>

abbreviation upsert_fn ::
  "schema \<Rightarrow> pgtable \<Rightarrow> (row \<Rightarrow> row) \<Rightarrow> insert_values \<Rightarrow> database \<Rightarrow>
   (error + upsert_result) \<times> database" where
  "upsert_fn schema t f values \<equiv>
     insert_onConflictDoUpdate (createRealtimeIndexingStore schema) (Some t) values (SetFunction f)"

subsection \<open>Example data\<close>

text \<open>
  An onchain table \<^verbatim>\<open>accounts\<close> keyed by \<^verbatim>\<open>address\<close>, an offchain table, two
  rows, a key, the empty database and a database that holds one row.
\<close>

definition accounts :: pgtable where
  "accounts = \<lparr>name = ''b83f__accounts'', user = ''accounts'',
               primaryKey = [''address''], onchain = True\<rparr>"

definition offchain_users :: pgtable where
  "offchain_users = \<lparr>name = ''users'', user = ''users'',
                     primaryKey = [''id''], onchain = False\<rparr>"

definition db0 :: database where
  "db0 = \<lparr>tables = (\<lambda>_. []), reorg = (\<lambda>_. []), checkpoint = (1, 1000, 100, 0, 0),
          queries = []\<rparr>"

definition alice :: row where
  "alice = [''address'' \<mapsto> VText ''0xa'', ''balance'' \<mapsto> VInt 10]"

definition bob :: row where
  "bob = [''address'' \<mapsto> VText ''0xb'', ''balance'' \<mapsto> VInt 20]"

definition alice_key :: row where
  "alice_key = [''address'' \<mapsto> VText ''0xa'']"

definition db_alice :: database where
  "db_alice = db0\<lparr>tables := (tables db0)(''b83f__accounts'' := [alice])\<rparr>"

section \<open>Properties\<close>

subsection \<open>The caches, the where condition and the table check\<close>

lemma fold_primaryKeysCache:
  "primaryKeysCache (fold (\<lambda>t st. st\<lparr>primaryKeysCache := (primaryKeysCache st)(t \<mapsto> primaryKey t),
                     tableNameCache := (tableNameCache st)(t \<mapsto> user t)\<rparr>) schema st0) t
   = (if t \<in> set schema then Some (primaryKey t) else primaryKeysCache st0 t)"
  by (induction schema arbitrary: st0) auto

lemma fold_tableNameCache:
  "tableNameCache (fold (\<lambda>t st. st\<lparr>primaryKeysCache := (primaryKeysCache st)(t \<mapsto> primaryKey t),
                     tableNameCache := (tableNameCache st)(t \<mapsto> user t)\<rparr>) schema st0) t
   = (if t \<in> set schema then Some (user t) else tableNameCache st0 t)"
  by (induction schema arbitrary: st0) auto

lemma primaryKeysCache_create:
  "primaryKeysCache (createRealtimeIndexingStore schema) t =
     (if t \<in> set schema then Some (primaryKey t) else None)"
  by (simp add: createRealtimeIndexingStore_def fold_primaryKeysCache)

lemma tableNameCache_create:
  "tableNameCache (createRealtimeIndexingStore schema) t =
     (if t \<in> set schema then Some (user t) else None)"
  by (simp add: createRealtimeIndexingStore_def fold_tableNameCache)

lemma holds_where:
  "holds (map (\<lambda>js. (js, key js)) (primaryKey t)) r = pk_equal t key r"
  by (auto simp: holds_def pk_equal_def list_all_iff)

lemma getWhereCondition_create:
  "t \<in> set schema \<Longrightarrow>
   getWhereCondition (createRealtimeIndexingStore schema) t key =
     Inr (map (\<lambda>js. (js, key js)) (primaryKey t))"
  by (simp add: getWhereCondition_def primaryKeysCache_create)

lemma first_of_filter: "(case filter P xs of [] \<Rightarrow> None | r # _ \<Rightarrow> Some r) = List.find P xs"
  by (induction xs) auto

lemma find_row_create:
  "t \<in> set schema \<Longrightarrow>
   find_row (createRealtimeIndexingStore schema) t key db =
     (Inr (List.find (pk_equal t key) (tables db (name t))),
      issue (SqlSelect (name t) (map (\<lambda>js. (js, key js)) (primaryKey t))) db)"
  by (simp add: find_row_def getWhereCondition_create drizzle_select_def holds_where[abs_def]
      first_of_filter)

lemma checkOnchainTable_onchain: "onchain t \<Longrightarrow> checkOnchainTable (Some t) m = Inr t"
  by (simp add: checkOnchainTable_def)

lemma checkOnchainTable_undefined:
  "checkOnchainTable None m = Inl (UndefinedTableError (undefined_table_message m))"
  by (simp add: checkOnchainTable_def undefined_table_message_def)

lemma checkOnchainTable_offchain:
  "\<not> onchain t \<Longrightarrow> checkOnchainTable (Some t) m =
     Inl (InvalidStoreMethodError
           (if m = ''find'' then find_offchain_message t else write_offchain_message t))"
  by (simp add: checkOnchainTable_def find_offchain_message_def write_offchain_message_def)

lemma issued_issue [simp]: "issued db (issue q db) = [q]"
  by (simp add: issued_def issue_def)

lemma issued_same [simp]: "issued db db = []"
  by (simp add: issued_def)

lemma tables_issue [simp]: "tables (issue q db) = tables db"
  and reorg_issue [simp]: "reorg (issue q db) = reorg db"
  and checkpoint_issue [simp]: "checkpoint (issue q db) = checkpoint db"
  by (simp_all add: issue_def)

subsection \<open>Reads of offchain tables\<close>

text \<open>
  Claim C9. The onchain check applies to reads too: \<^verbatim>\<open>find\<close> on a table that is not
  an onchain table fails with \<^verbatim>\<open>InvalidStoreMethodError\<close> and the message for
  \<^verbatim>\<open>find\<close>, whatever the store, the key and the database; the database is
  returned as it was, so no statement has been issued.
\<close>

theorem find_rejects_offchain_table:
  "\<not> onchain t \<Longrightarrow>
   indexingStore_find st (Some t) key db =
     (Inl (InvalidStoreMethodError (find_offchain_message t)), db)"
  by (simp add: indexingStore_find_def queue_add_def wrap_def checkOnchainTable_offchain)

theorem find_rejects_offchain_table_witness:
  "\<not> onchain offchain_users \<and>
   indexingStore_find (createRealtimeIndexingStore [accounts]) (Some offchain_users) alice_key db_alice =
     (Inl (InvalidStoreMethodError
        ''db.find() can only be used with onchain tables, and 'users' is an offchain table.''), db_alice)"
proof -
  have off: "\<not> onchain offchain_users" by (simp add: offchain_users_def)
  show ?thesis
    using off find_rejects_offchain_table [OF off, of "createRealtimeIndexingStore [accounts]" alice_key db_alice]
    by (simp add: find_offchain_message_def quoted_def offchain_users_def)
qed

subsection \<open>Writes to tables that are undefined or offchain\<close>

lemma insert_then_unchecked:
  "checkOnchainTable table ''insert'' = Inl e \<Longrightarrow>
   insert_then st table values f g db = (promise_then (Inl e) f g, db)"
  by (simp add: insert_then_def queue_add_def wrap_def)

lemma await_insert_then_unchecked:
  "checkOnchainTable table ''insert'' = Inl e \<Longrightarrow>
   await (insert_then st table values) db = (Inl e, db)"
  by (simp add: await_def insert_then_unchecked promise_then_def)

text \<open>
  Claim C3. Every write of the store checks its table first. For a table that is
  \<^verbatim>\<open>undefined\<close> the write fails with \<^verbatim>\<open>UndefinedTableError\<close>, for a table
  that is not an onchain table with \<^verbatim>\<open>InvalidStoreMethodError\<close>; this holds for
  the three ways to run an insert (awaiting the thenable, \<^verbatim>\<open>onConflictDoNothing\<close>,
  \<^verbatim>\<open>onConflictDoUpdate\<close>), for \<^verbatim>\<open>update\<close> and for \<^verbatim>\<open>delete\<close>. The database is
  returned as it was: no table or journal has changed and no statement has been
  issued.
\<close>

theorem write_rejects_undefined_or_offchain_table:
  "(await (insert_then st None values) db =
      (Inl (UndefinedTableError (undefined_table_message ''insert'')), db) \<and>
    insert_onConflictDoNothing st None values db =
      (Inl (UndefinedTableError (undefined_table_message ''insert'')), db) \<and>
    insert_onConflictDoUpdate st None values valuesU db =
      (Inl (UndefinedTableError (undefined_table_message ''insert'')), db) \<and>
    indexingStore_update st None key sv db =
      (Inl (UndefinedTableError (undefined_table_message ''update'')), db) \<and>
    indexingStore_delete st None key db =
      (Inl (UndefinedTableError (undefined_table_message ''delete'')), db)) \<and>
   (\<not> onchain t \<longrightarrow>
    await (insert_then st (Some t) values) db =
      (Inl (InvalidStoreMethodError (write_offchain_message t)), db) \<and>
    insert_onConflictDoNothing st (Some t) values db =
      (Inl (InvalidStoreMethodError (write_offchain_message t)), db) \<and>
    insert_onConflictDoUpdate st (Some t) values valuesU db =
      (Inl (InvalidStoreMethodError (write_offchain_message t)), db) \<and>
    indexingStore_update st (Some t) key sv db =
      (Inl (InvalidStoreMethodError (write_offchain_message t)), db) \<and>
    indexingStore_delete st (Some t) key db =
      (Inl (InvalidStoreMethodError (write_offchain_message t)), db))"
proof (intro conjI impI)
  assume off: "\<not> onchain t"
  show "await (insert_then st (Some t) values) db =
      (Inl (InvalidStoreMethodError (write_offchain_message t)), db)"
    by (simp add: await_insert_then_unchecked checkOnchainTable_offchain [OF off])
  show "insert_onConflictDoNothing st (Some t) values db =
      (Inl (InvalidStoreMethodError (write_offchain_message t)), db)"
    by (simp add: insert_onConflictDoNothing_def queue_add_def wrap_def
        checkOnchainTable_offchain [OF off])
  show "insert_onConflictDoUpdate st (Some t) values valuesU db =
      (Inl (InvalidStoreMethodError (write_offchain_message t)), db)"
    by (simp add: insert_onConflictDoUpdate_def queue_add_def wrap_def
        checkOnchainTable_offchain [OF off])
  show "indexingStore_update st (Some t) key sv db =
      (Inl (InvalidStoreMethodError (write_offchain_message t)), db)"
    by (simp add: indexingStore_update_def queue_add_def wrap_def
        checkOnchainTable_offchain [OF off])
  show "indexingStore_delete st (Some t) key db =
      (Inl (InvalidStoreMethodError (write_offchain_message t)), db)"
    by (simp add: indexingStore_delete_def queue_add_def wrap_def
        checkOnchainTable_offchain [OF off])
next
  show "await (insert_then st None values) db =
      (Inl (UndefinedTableError (undefined_table_message ''insert'')), db)"
    by (simp add: await_insert_then_unchecked checkOnchainTable_undefined)
  show "insert_onConflictDoNothing st None values db =
      (Inl (UndefinedTableError (undefined_table_message ''insert'')), db)"
    by (simp add: insert_onConflictDoNothing_def queue_add_def wrap_def
        checkOnchainTable_undefined)
  show "insert_onConflictDoUpdate st None values valuesU db =
      (Inl (UndefinedTableError (undefined_table_message ''insert'')), db)"
    by (simp add: insert_onConflictDoUpdate_def queue_add_def wrap_def
        checkOnchainTable_undefined)
  show "indexingStore_update st None key sv db =
      (Inl (UndefinedTableError (undefined_table_message ''update'')), db)"
    by (simp add: indexingStore_update_def queue_add_def wrap_def checkOnchainTable_undefined)
  show "indexingStore_delete st None key db =
      (Inl (UndefinedTableError (undefined_table_message ''delete'')), db)"
    by (simp add: indexingStore_delete_def queue_add_def wrap_def checkOnchainTable_undefined)
qed

theorem write_rejects_undefined_or_offchain_table_witness:
  "indexingStore_delete (createRealtimeIndexingStore [accounts]) None alice_key db_alice =
     (Inl (UndefinedTableError ''Table object passed to db.delete() is undefined''), db_alice) \<and>
   indexingStore_update (createRealtimeIndexingStore [accounts]) (Some offchain_users) alice_key
       (SetObject bob) db_alice =
     (Inl (InvalidStoreMethodError
        ''Indexing functions can only write to onchain tables, and 'users' is an offchain table.''),
      db_alice) \<and>
   await (insert_then (createRealtimeIndexingStore [accounts]) (Some offchain_users) (Single bob))
       db_alice =
     (Inl (InvalidStoreMethodError
        ''Indexing functions can only write to onchain tables, and 'users' is an offchain table.''),
      db_alice)"
proof -
  have off: "\<not> onchain offchain_users" by (simp add: offchain_users_def)
  have msg: "write_offchain_message offchain_users =
    ''Indexing functions can only write to onchain tables, and 'users' is an offchain table.''"
    by (simp add: write_offchain_message_def quoted_def offchain_users_def)
  have und: "undefined_table_message ''delete'' = ''Table object passed to db.delete() is undefined''"
    by (simp add: undefined_table_message_def)
  show ?thesis
    using off write_rejects_undefined_or_offchain_table
      [of "createRealtimeIndexingStore [accounts]" "Single bob" db_alice "SetObject bob" alice_key
          "SetObject bob" offchain_users]
    unfolding msg und by blast
qed

subsection \<open>What find returns\<close>

lemma find_None_iff: "List.find P xs = None \<longleftrightarrow> (\<forall>x \<in> set xs. \<not> P x)"
  by (induction xs) auto

lemma find_Some_member: "List.find P xs = Some x \<Longrightarrow> x \<in> set xs \<and> P x"
  by (induction xs) (auto split: if_splits)

lemma pk_equal_pk_of: "pk_equal t key r \<Longrightarrow> pk_of (primaryKey t) r = pk_of (primaryKey t) key"
  by (simp add: pk_equal_def pk_of_def)

lemma find_unique:
  assumes "distinct (map f xs)" and "x \<in> set xs" and "P x"
    and "\<And>y. y \<in> set xs \<Longrightarrow> P y \<Longrightarrow> f y = f x"
  shows "List.find P xs = Some x"
proof -
  from assms(2,3) have "List.find P xs \<noteq> None" by (auto simp: find_None_iff)
  then obtain y where y: "List.find P xs = Some y" by auto
  then have "y \<in> set xs" "P y" using find_Some_member by fastforce+
  then have "f y = f x" using assms(4) by blast
  with assms(1,2) \<open>y \<in> set xs\<close> have "y = x"
    by (meson distinct_map inj_onD)
  with y show ?thesis by simp
qed

text \<open>
  Claim C7. For a table of the schema, \<^verbatim>\<open>find\<close> changes no table and returns
  \<^verbatim>\<open>null\<close> (here \<open>None\<close>) when no row of the table matches the key; when a row
  matches, it returns a row of the table that matches the key; and when the
  primary keys of the table are distinct, as the database keeps them, it
  returns the one row that matches.
\<close>

theorem find_returns_matching_row_or_null:
  assumes "t \<in> set schema"
  shows "\<exists>res db1.
     find_row (createRealtimeIndexingStore schema) t key db = (Inr res, db1) \<and>
     tables db1 = tables db \<and>
     ((\<forall>r \<in> set (tables db (name t)). \<not> pk_equal t key r) \<longrightarrow> res = None) \<and>
     ((\<exists>r \<in> set (tables db (name t)). pk_equal t key r) \<longrightarrow>
        (\<exists>r. res = Some r \<and> r \<in> set (tables db (name t)) \<and> pk_equal t key r)) \<and>
     (\<forall>r \<in> set (tables db (name t)).
        pk_equal t key r \<and> distinct (map (pk_of (primaryKey t)) (tables db (name t))) \<longrightarrow>
        res = Some r)"
proof -
  let ?rows = "tables db (name t)"
  let ?res = "List.find (pk_equal t key) ?rows"
  have none: "(\<forall>r \<in> set ?rows. \<not> pk_equal t key r) \<longrightarrow> ?res = None"
    by (simp add: find_None_iff)
  have some: "(\<exists>r \<in> set ?rows. pk_equal t key r) \<longrightarrow>
      (\<exists>r. ?res = Some r \<and> r \<in> set ?rows \<and> pk_equal t key r)"
  proof
    assume "\<exists>r \<in> set ?rows. pk_equal t key r"
    then have "?res \<noteq> None" by (simp add: find_None_iff)
    then obtain r where "?res = Some r" by auto
    then show "\<exists>r. ?res = Some r \<and> r \<in> set ?rows \<and> pk_equal t key r"
      using find_Some_member by fastforce
  qed
  have the_one: "\<forall>r \<in> set ?rows.
      pk_equal t key r \<and> distinct (map (pk_of (primaryKey t)) ?rows) \<longrightarrow> ?res = Some r"
  proof (intro ballI impI)
    fix r assume r: "r \<in> set ?rows"
      and "pk_equal t key r \<and> distinct (map (pk_of (primaryKey t)) ?rows)"
    then have m: "pk_equal t key r" and d: "distinct (map (pk_of (primaryKey t)) ?rows)"
      by simp_all
    show "?res = Some r"
    proof (rule find_unique [where f = "pk_of (primaryKey t)" and P = "pk_equal t key", OF d r m])
      fix y assume "pk_equal t key y"
      then show "pk_of (primaryKey t) y = pk_of (primaryKey t) r"
        using pk_equal_pk_of [OF m] pk_equal_pk_of [of t key y] by simp
    qed
  qed
  show ?thesis
    using none some the_one by (simp add: find_row_create [OF assms])
qed

theorem find_returns_matching_row_or_null_witness:
  "fst (find_row (createRealtimeIndexingStore [accounts]) accounts alice_key db_alice) =
     Inr (Some alice) \<and>
   fst (find_row (createRealtimeIndexingStore [accounts]) accounts alice_key db0) = Inr None"
proof -
  have mem: "accounts \<in> set [accounts]" by simp
  have rows: "tables db_alice (name accounts) = [alice]"
    by (simp add: db_alice_def accounts_def)
  have m: "pk_equal accounts alice_key alice"
    by (simp add: pk_equal_def accounts_def alice_key_def alice_def)
  have empty: "tables db0 (name accounts) = []"
    by (simp add: db0_def)
  from find_returns_matching_row_or_null [OF mem, of alice_key db_alice]
  have a: "fst (find_row (createRealtimeIndexingStore [accounts]) accounts alice_key db_alice) =
     Inr (Some alice)"
    using m by (auto simp: rows)
  from find_returns_matching_row_or_null [OF mem, of alice_key db0]
  have b: "fst (find_row (createRealtimeIndexingStore [accounts]) accounts alice_key db0) = Inr None"
    by (auto simp: empty)
  from a b show ?thesis by simp
qed

subsection \<open>What delete returns\<close>

lemma tables_commit [simp]: "tables (commit t rows js db) = (tables db)(name t := rows)"
  and reorg_commit [simp]:
    "reorg (commit t rows js db) = (reorg db)(name t := reorg db (name t) @ js)"
  and checkpoint_commit [simp]: "checkpoint (commit t rows js db) = checkpoint db"
  and queries_commit [simp]: "queries (commit t rows js db) = queries db"
  by (simp_all add: commit_def)

lemma indexingStore_delete_create:
  assumes "t \<in> set schema" and "onchain t"
  shows "indexingStore_delete (createRealtimeIndexingStore schema) (Some t) key db =
     (Inr (\<exists>r \<in> set (tables db (name t)). pk_equal t key r),
      commit t (filter (\<lambda>r. \<not> pk_equal t key r) (tables db (name t)))
        (map (journal_before OpDelete (checkpoint db) (primaryKey t))
           (filter (pk_equal t key) (tables db (name t))))
        (issue (SqlDelete (name t) (map (\<lambda>js. (js, key js)) (primaryKey t))) db))"
  using assms
  by (auto simp: indexingStore_delete_def queue_add_def wrap_def checkOnchainTable_onchain
      getWhereCondition_create drizzle_delete_def Let_def holds_where [abs_def] filter_empty_conv)

text \<open>
  Claim C8. For an onchain table of the schema, \<^verbatim>\<open>delete\<close> does not fail and
  returns a boolean: \<^verbatim>\<open>true\<close> exactly when a row of the table matched the key.
  Afterwards the table holds the rows that did not match, so a row that matched
  is gone, and the other tables are as before. When no row matched, that is
  when it returns \<^verbatim>\<open>false\<close>, the tables and the journal are unchanged.
\<close>

theorem delete_returns_whether_row_existed:
  assumes "t \<in> set schema" and "onchain t"
  shows "\<exists>db1.
     indexingStore_delete (createRealtimeIndexingStore schema) (Some t) key db =
       (Inr (\<exists>r \<in> set (tables db (name t)). pk_equal t key r), db1) \<and>
     tables db1 = (tables db)(name t := filter (\<lambda>r. \<not> pk_equal t key r) (tables db (name t))) \<and>
     ((\<forall>r \<in> set (tables db (name t)). \<not> pk_equal t key r) \<longrightarrow>
        tables db1 = tables db \<and> reorg db1 = reorg db)"
proof -
  have "(\<forall>r \<in> set (tables db (name t)). \<not> pk_equal t key r) \<longrightarrow>
      filter (\<lambda>r. \<not> pk_equal t key r) (tables db (name t)) = tables db (name t) \<and>
      filter (pk_equal t key) (tables db (name t)) = []"
    by (simp add: filter_empty_conv)
  then show ?thesis
    by (auto simp: indexingStore_delete_create [OF assms])
qed

theorem delete_returns_whether_row_existed_witness:
  "(\<exists>db1. indexingStore_delete (createRealtimeIndexingStore [accounts]) (Some accounts)
            alice_key db_alice = (Inr True, db1) \<and> tables db1 (name accounts) = []) \<and>
   (\<exists>db1. indexingStore_delete (createRealtimeIndexingStore [accounts]) (Some accounts)
            alice_key db0 = (Inr False, db1) \<and> tables db1 = tables db0)"
proof -
  have mem: "accounts \<in> set [accounts]" by simp
  have on: "onchain accounts" by (simp add: accounts_def)
  have rows: "tables db_alice (name accounts) = [alice]"
    by (simp add: db_alice_def accounts_def)
  have m: "pk_equal accounts alice_key alice"
    by (simp add: pk_equal_def accounts_def alice_key_def alice_def)
  have empty: "tables db0 (name accounts) = []"
    by (simp add: db0_def)
  from delete_returns_whether_row_existed [OF mem on, of alice_key db_alice]
  have a: "\<exists>db1. indexingStore_delete (createRealtimeIndexingStore [accounts]) (Some accounts)
            alice_key db_alice = (Inr True, db1) \<and> tables db1 (name accounts) = []"
    using m by (auto simp: rows)
  from delete_returns_whether_row_existed [OF mem on, of alice_key db0]
  have b: "\<exists>db1. indexingStore_delete (createRealtimeIndexingStore [accounts]) (Some accounts)
            alice_key db0 = (Inr False, db1) \<and> tables db1 = tables db0"
    by (auto simp: empty)
  from a b show ?thesis by simp
qed

subsection \<open>Insert, then find\<close>

lemma insert_rows_fresh:
  "\<forall>c \<in> set pks. x c \<noteq> None \<Longrightarrow> pk_of pks x \<notin> set (map (pk_of pks) cur) \<Longrightarrow>
   insert_rows pks cur [x] = Inr (cur @ [x])"
  by simp

lemma insert_then_onchain:
  "onchain t \<Longrightarrow>
   insert_then st (Some t) values f g db =
     (promise_then (fst (rethrow (drizzle_insert t (as_rows values) db))) f g,
      snd (rethrow (drizzle_insert t (as_rows values) db)))"
  by (simp add: insert_then_def queue_add_def wrap_def checkOnchainTable_onchain split: prod.splits)

lemma await_insert_then_onchain:
  "onchain t \<Longrightarrow>
   await (insert_then st (Some t) values) db = rethrow (drizzle_insert t (as_rows values) db)"
  by (simp add: await_def insert_then_def queue_add_def wrap_def checkOnchainTable_onchain
      promise_then_def split: prod.splits sum.splits)

lemma indexingStore_find_create:
  "t \<in> set schema \<Longrightarrow> onchain t \<Longrightarrow>
   indexingStore_find (createRealtimeIndexingStore schema) (Some t) key db =
     (Inr (List.find (pk_equal t key) (tables db (name t))),
      issue (SqlSelect (name t) (map (\<lambda>js. (js, key js)) (primaryKey t))) db)"
  by (simp add: indexingStore_find_def queue_add_def wrap_def checkOnchainTable_onchain
      find_row_create)

lemma find_append_last:
  "\<forall>r \<in> set xs. \<not> P r \<Longrightarrow> P x \<Longrightarrow> List.find P (xs @ [x]) = Some x"
  by (induction xs) auto

text \<open>
  Claim C6. Let \<open>x\<close> be a row that binds every primary-key column of an onchain
  table of the schema, with a primary key that no row of the table has. Then
  awaiting \<^verbatim>\<open>insert(table).values(x)\<close> succeeds and returns \<open>x\<close>, and a \<^verbatim>\<open>find\<close>
  that follows it, with a key that agrees with \<open>x\<close> on the primary-key columns,
  returns \<open>x\<close>.
\<close>

theorem insert_then_find_returns_row:
  assumes "t \<in> set schema" and "onchain t"
    and "\<forall>js \<in> set (primaryKey t). x js \<noteq> None"
    and "\<forall>r \<in> set (tables db (name t)). pk_of (primaryKey t) r \<noteq> pk_of (primaryKey t) x"
    and "\<forall>js \<in> set (primaryKey t). key js = x js"
  shows "\<exists>db1 db2.
     await (insert_then (createRealtimeIndexingStore schema) (Some t) (Single x)) db =
       (Inr [x], db1) \<and>
     indexingStore_find (createRealtimeIndexingStore schema) (Some t) key db1 =
       (Inr (Some x), db2)"
proof -
  let ?pks = "primaryKey t"
  let ?cur = "tables db (name t)"
  have fresh: "pk_of ?pks x \<notin> set (map (pk_of ?pks) ?cur)"
    using assms(4) by auto
  have ins: "insert_rows ?pks ?cur [x] = Inr (?cur @ [x])"
    using insert_rows_fresh [OF assms(3) fresh] .
  let ?db1 = "commit t (?cur @ [x]) (map (journal_insert (checkpoint db) ?pks) [x])
                (issue (SqlInsert (name t) [x]) db)"
  have step1: "await (insert_then (createRealtimeIndexingStore schema) (Some t) (Single x)) db =
       (Inr [x], ?db1)"
    by (simp add: await_insert_then_onchain [OF assms(2)] drizzle_insert_def Let_def ins
        rethrow_def del: insert_rows.simps)
  have x_matches: "pk_equal t key x"
    using assms(3,5) by (simp add: pk_equal_def)
  have others: "\<forall>r \<in> set ?cur. \<not> pk_equal t key r"
  proof
    fix r assume r: "r \<in> set ?cur"
    show "\<not> pk_equal t key r"
    proof
      assume "pk_equal t key r"
      then have "pk_of ?pks r = pk_of ?pks x"
        using pk_equal_pk_of [of t key r] pk_equal_pk_of [OF x_matches] by simp
      with assms(4) r show False by blast
    qed
  qed
  have "tables ?db1 (name t) = ?cur @ [x]" by simp
  then have step2: "indexingStore_find (createRealtimeIndexingStore schema) (Some t) key ?db1 =
       (Inr (Some x), issue (SqlSelect (name t) (map (\<lambda>js. (js, key js)) ?pks)) ?db1)"
    by (simp add: indexingStore_find_create [OF assms(1,2)] find_append_last [where P = "pk_equal t key", OF others x_matches])
  from step1 step2 show ?thesis by blast
qed

theorem insert_then_find_returns_row_witness:
  "\<exists>db1 db2.
     await (insert_then (createRealtimeIndexingStore [accounts]) (Some accounts) (Single bob))
       db_alice = (Inr [bob], db1) \<and>
     indexingStore_find (createRealtimeIndexingStore [accounts]) (Some accounts)
       [''address'' \<mapsto> VText ''0xb''] db1 = (Inr (Some bob), db2)"
proof -
  have mem: "accounts \<in> set [accounts]" by simp
  have on: "onchain accounts" by (simp add: accounts_def)
  have bound: "\<forall>js \<in> set (primaryKey accounts). bob js \<noteq> None"
    by (simp add: accounts_def bob_def)
  have fresh: "\<forall>r \<in> set (tables db_alice (name accounts)).
      pk_of (primaryKey accounts) r \<noteq> pk_of (primaryKey accounts) bob"
    by (simp add: db_alice_def accounts_def pk_of_def alice_def bob_def)
  have key: "\<forall>js \<in> set (primaryKey accounts). [''address'' \<mapsto> VText ''0xb''] js = bob js"
    by (simp add: accounts_def bob_def)
  show ?thesis
    using insert_then_find_returns_row [OF mem on bound fresh key] .
qed

subsection \<open>The thenable of an insert\<close>

lemma insert_rows_conflict:
  "\<forall>v \<in> set vs. \<forall>c \<in> set pks. v c \<noteq> None \<Longrightarrow>
   \<exists>v \<in> set vs. pk_of pks v \<in> set (map (pk_of pks) cur) \<Longrightarrow>
   insert_rows pks cur vs = Inl UniqueViolation"
proof (induction vs arbitrary: cur)
  case Nil
  then show ?case by simp
next
  case (Cons v vs)
  show ?case
  proof (cases "pk_of pks v \<in> set (map (pk_of pks) cur)")
    case True
    with Cons.prems(1) show ?thesis by simp
  next
    case False
    with Cons.prems(2) have "\<exists>w \<in> set vs. pk_of pks w \<in> set (map (pk_of pks) (cur @ [v]))"
      by auto
    with Cons.IH [of "cur @ [v]"] Cons.prems(1) False show ?thesis by simp
  qed
qed

lemma drizzle_insert_conflict:
  "\<forall>v \<in> set vs. \<forall>c \<in> set (primaryKey t). v c \<noteq> None \<Longrightarrow>
   \<exists>v \<in> set vs. pk_of (primaryKey t) v \<in> set (map (pk_of (primaryKey t)) (tables db (name t))) \<Longrightarrow>
   drizzle_insert t vs db = (Inl UniqueViolation, issue (SqlInsert (name t) vs) db)"
  by (simp add: drizzle_insert_def Let_def insert_rows_conflict)

lemma queries_drizzle_insert:
  "queries (snd (drizzle_insert t vs db)) = queries db @ [SqlInsert (name t) vs]"
  by (simp add: drizzle_insert_def Let_def issue_def split: sum.splits)

lemma snd_rethrow [simp]: "snd (rethrow r) = snd r"
  by (simp add: rethrow_def split: prod.splits sum.splits)

text \<open>
  Claim C10. The object that \<^verbatim>\<open>insert(table).values(v)\<close> returns is a thenable. For
  an onchain table, its \<^verbatim>\<open>then\<close>, and so \<^verbatim>\<open>await\<close>, \<^verbatim>\<open>catch\<close> and \<^verbatim>\<open>finally\<close>,
  issue one statement, the plain insert of the values with no conflict clause.
  When the values bind their primary-key columns and one of them has the primary
  key of a row of the table, the insert raises the unique violation of the
  database: \<^verbatim>\<open>await\<close> fails with it, \<^verbatim>\<open>catch\<close> hands it to its callback and
  \<^verbatim>\<open>finally\<close> throws it again after its callback; no table and no journal
  changes, so the value was neither ignored nor turned into an update.
\<close>

theorem awaited_insert_raises_unique_violation:
  assumes "onchain t"
  shows "issued db (snd (insert_then st (Some t) values f g db)) =
           [SqlInsert (name t) (as_rows values)] \<and>
         ((\<forall>v \<in> set (as_rows values). \<forall>c \<in> set (primaryKey t). v c \<noteq> None) \<and>
          (\<exists>v \<in> set (as_rows values).
             pk_of (primaryKey t) v \<in> set (map (pk_of (primaryKey t)) (tables db (name t)))) \<longrightarrow>
          await (insert_then st (Some t) values) db =
            (Inl (DatabaseError UniqueViolation), issue (SqlInsert (name t) (as_rows values)) db) \<and>
          insert_catch st (Some t) values (Some h) db =
            (h (DatabaseError UniqueViolation), issue (SqlInsert (name t) (as_rows values)) db) \<and>
          insert_finally st (Some t) values onFinally db =
            (call_onFinally onFinally (Inl (DatabaseError UniqueViolation)),
             issue (SqlInsert (name t) (as_rows values)) db))"
proof (intro conjI impI)
  show "issued db (snd (insert_then st (Some t) values f g db)) =
           [SqlInsert (name t) (as_rows values)]"
    by (simp add: insert_then_onchain [OF assms] issued_def queries_drizzle_insert)
next
  assume "(\<forall>v \<in> set (as_rows values). \<forall>c \<in> set (primaryKey t). v c \<noteq> None) \<and>
          (\<exists>v \<in> set (as_rows values).
             pk_of (primaryKey t) v \<in> set (map (pk_of (primaryKey t)) (tables db (name t))))"
  then have fails: "drizzle_insert t (as_rows values) db =
      (Inl UniqueViolation, issue (SqlInsert (name t) (as_rows values)) db)"
    using drizzle_insert_conflict by blast
  show "await (insert_then st (Some t) values) db =
      (Inl (DatabaseError UniqueViolation), issue (SqlInsert (name t) (as_rows values)) db)"
    by (simp add: await_insert_then_onchain [OF assms] fails rethrow_def)
  show "insert_catch st (Some t) values (Some h) db =
      (h (DatabaseError UniqueViolation), issue (SqlInsert (name t) (as_rows values)) db)"
    by (simp add: insert_catch_def insert_then_onchain [OF assms] fails rethrow_def
        promise_then_def)
  show "insert_finally st (Some t) values onFinally db =
      (call_onFinally onFinally (Inl (DatabaseError UniqueViolation)),
       issue (SqlInsert (name t) (as_rows values)) db)"
    by (simp add: insert_finally_def insert_then_onchain [OF assms] fails rethrow_def
        promise_then_def)
qed

theorem awaited_insert_raises_unique_violation_witness:
  "await (insert_then (createRealtimeIndexingStore [accounts]) (Some accounts)
       (Single [''address'' \<mapsto> VText ''0xa'', ''balance'' \<mapsto> VInt 99])) db_alice =
     (Inl (DatabaseError UniqueViolation),
      issue (SqlInsert ''b83f__accounts'' [[''address'' \<mapsto> VText ''0xa'', ''balance'' \<mapsto> VInt 99]])
        db_alice) \<and>
   tables (issue (SqlInsert ''b83f__accounts''
        [[''address'' \<mapsto> VText ''0xa'', ''balance'' \<mapsto> VInt 99]]) db_alice) ''b83f__accounts'' =
     [alice]"
proof -
  let ?v = "[''address'' \<mapsto> VText ''0xa'', ''balance'' \<mapsto> VInt 99]"
  have on: "onchain accounts" by (simp add: accounts_def)
  have bound: "\<forall>v \<in> set (as_rows (Single ?v)). \<forall>c \<in> set (primaryKey accounts). v c \<noteq> None"
    by (simp add: accounts_def)
  have taken: "\<exists>v \<in> set (as_rows (Single ?v)).
      pk_of (primaryKey accounts) v \<in>
        set (map (pk_of (primaryKey accounts)) (tables db_alice (name accounts)))"
    by (simp add: accounts_def db_alice_def pk_of_def alice_def)
  have n: "name accounts = ''b83f__accounts''" by (simp add: accounts_def)
  have rows: "tables db_alice ''b83f__accounts'' = [alice]" by (simp add: db_alice_def)
  from awaited_insert_raises_unique_violation [OF on, of db_alice
      "createRealtimeIndexingStore [accounts]" "Single ?v"] bound taken
  have "await (insert_then (createRealtimeIndexingStore [accounts]) (Some accounts) (Single ?v))
      db_alice =
     (Inl (DatabaseError UniqueViolation),
      issue (SqlInsert (name accounts) (as_rows (Single ?v))) db_alice)"
    by blast
  then show ?thesis by (simp add: n rows)
qed

subsection \<open>Update of a row that does not exist\<close>

lemma update_function_missing_row:
  assumes "t \<in> set schema" and "onchain t"
    and "\<forall>r \<in> set (tables db (name t)). \<not> pk_equal t key r"
  shows "indexingStore_update (createRealtimeIndexingStore schema) (Some t) key (SetFunction f) db =
     (Inl (RecordNotFoundError (''No existing record found in table '' @ quoted (user t))),
      issue (SqlSelect (name t) (map (\<lambda>js. (js, key js)) (primaryKey t))) db)"
proof -
  have "List.find (pk_equal t key) (tables db (name t)) = None"
    using assms(3) by (simp add: find_None_iff)
  then show ?thesis
    using assms(1,2)
    by (simp add: indexingStore_update_def queue_add_def wrap_def checkOnchainTable_onchain
        find_row_create tableNameCache_create)
qed

lemma update_object_missing_row:
  assumes "t \<in> set schema" and "onchain t"
    and "\<forall>r \<in> set (tables db (name t)). \<not> pk_equal t key r"
  shows "indexingStore_update (createRealtimeIndexingStore schema) (Some t) key (SetObject s) db =
     (Inr [], issue (SqlUpdate (name t) s (map (\<lambda>js. (js, key js)) (primaryKey t))) db)"
proof -
  have "filter (pk_equal t key) (tables db (name t)) = []"
    using assms(3) by (simp add: filter_empty_conv)
  then show ?thesis
    using assms(1,2)
    by (simp add: indexingStore_update_def queue_add_def wrap_def checkOnchainTable_onchain
        getWhereCondition_create drizzle_update_def Let_def holds_where [abs_def] rethrow_def)
qed

text \<open>
  Claim C1. An update of a row that does not exist is to fail with
  \<^verbatim>\<open>RecordNotFoundError\<close> for a function and for a plain object. With a function
  the store does so (\<open>update_function_missing_row\<close>). With a plain object it
  does not: on the empty table \<^verbatim>\<open>accounts\<close>,
  \<^verbatim>\<open>update(accounts, {address: "0xa"}).set({balance: 5})\<close> issues the update and
  resolves with the empty array.
\<close>

theorem update_object_on_missing_row_resolves:
  "indexingStore_update (createRealtimeIndexingStore [accounts]) (Some accounts) alice_key
     (SetObject [''balance'' \<mapsto> VInt 5]) db0 =
   (Inr [], issue (SqlUpdate ''b83f__accounts'' [''balance'' \<mapsto> VInt 5]
                     [(''address'', Some (VText ''0xa''))]) db0)"
proof -
  have mem: "accounts \<in> set [accounts]" by simp
  have on: "onchain accounts" by (simp add: accounts_def)
  have none: "\<forall>r \<in> set (tables db0 (name accounts)). \<not> pk_equal accounts alice_key r"
    by (simp add: db0_def)
  show ?thesis
    using update_object_missing_row [OF mem on none, of "[''balance'' \<mapsto> VInt 5]"]
    by (simp add: accounts_def alice_key_def)
qed

subsection \<open>Upsert of an array\<close>

lemma queries_find_row:
  "t \<in> set schema \<Longrightarrow>
   queries (snd (find_row (createRealtimeIndexingStore schema) t key db)) =
     queries db @ [SqlSelect (name t) (key_cond t key)]"
  by (simp add: find_row_create key_cond_def issue_def)

lemma queries_drizzle_update:
  "queries (snd (drizzle_update t s c db)) = queries db @ [SqlUpdate (name t) s c]"
  by (simp add: drizzle_update_def Let_def issue_def)

lemma upsert_one_create:
  assumes "t \<in> set schema"
  shows "upsert_one (createRealtimeIndexingStore schema) t f v db =
     (case List.find (pk_equal t v) (tables db (name t)) of
        None \<Rightarrow> rethrow (drizzle_insert t [v] (issue (SqlSelect (name t) (key_cond t v)) db))
      | Some r \<Rightarrow> rethrow (drizzle_update t (f r) (key_cond t v)
                            (issue (SqlSelect (name t) (key_cond t v)) db)))"
  by (simp add: upsert_one_def find_row_create [OF assms] getWhereCondition_create [OF assms]
      key_cond_def split: option.splits)

lemma queries_upsert_one:
  assumes "t \<in> set schema"
  shows "queries (snd (upsert_one (createRealtimeIndexingStore schema) t f v db)) =
     queries db @ [SqlSelect (name t) (key_cond t v),
       (case List.find (pk_equal t v) (tables db (name t)) of
          None \<Rightarrow> SqlInsert (name t) [v]
        | Some r \<Rightarrow> SqlUpdate (name t) (f r) (key_cond t v))]"
  by (simp add: upsert_one_create [OF assms] queries_drizzle_insert queries_drizzle_update
      issue_def split: option.splits)

lemma per_row_step:
  "per_row t vs qs \<Longrightarrow>
   per_row t (v # vs) (SqlSelect (name t) (key_cond t v) #
     (case found of None \<Rightarrow> SqlInsert (name t) [v] | Some r \<Rightarrow> SqlUpdate (name t) (f r) (key_cond t v)) # qs)"
  by (cases found) simp_all

lemma upsert_loop_per_row:
  assumes "t \<in> set schema"
  shows "\<exists>qs k. queries (snd (upsert_loop (createRealtimeIndexingStore schema) t f rows vs db)) =
             queries db @ qs \<and> k \<le> length vs \<and> per_row t (take k vs) qs \<and>
           (\<forall>rss. fst (upsert_loop (createRealtimeIndexingStore schema) t f rows vs db) = Inr rss \<longrightarrow>
              k = length vs \<and> length rss = length rows + length vs)"
proof (induction vs arbitrary: rows db)
  case Nil
  show ?case by simp
next
  case (Cons v vs)
  let ?st = "createRealtimeIndexingStore schema"
  obtain p db1 where one: "upsert_one ?st t f v db = (p, db1)" by (cases "upsert_one ?st t f v db")
  let ?w = "case List.find (pk_equal t v) (tables db (name t)) of
          None \<Rightarrow> SqlInsert (name t) [v]
        | Some r \<Rightarrow> SqlUpdate (name t) (f r) (key_cond t v)"
  have q1: "queries db1 = queries db @ [SqlSelect (name t) (key_cond t v), ?w]"
    using queries_upsert_one [OF assms, of f v db] one by simp
  have pr1: "per_row t (take 1 (v # vs)) [SqlSelect (name t) (key_cond t v), ?w]"
    using per_row_step [of t "[]" "[]"] by simp
  show ?case
  proof (cases p)
    case (Inl e)
    then have "upsert_loop ?st t f rows (v # vs) db = (Inl e, db1)"
      using one by simp
    with q1 pr1 show ?thesis
      by (intro exI [of _ "[SqlSelect (name t) (key_cond t v), ?w]"] exI [of _ 1])
        (simp del: upsert_loop.simps)
  next
    case (Inr res)
    then have loop: "upsert_loop ?st t f rows (v # vs) db = upsert_loop ?st t f (rows @ [res]) vs db1"
      using one by simp
    from Cons.IH [of "rows @ [res]" db1] obtain qs k where
      ih: "queries (snd (upsert_loop ?st t f (rows @ [res]) vs db1)) = queries db1 @ qs"
        "k \<le> length vs" "per_row t (take k vs) qs"
        "\<forall>rss. fst (upsert_loop ?st t f (rows @ [res]) vs db1) = Inr rss \<longrightarrow>
              k = length vs \<and> length rss = length (rows @ [res]) + length vs"
      by blast
    have "per_row t (take (Suc k) (v # vs)) (SqlSelect (name t) (key_cond t v) # ?w # qs)"
      using per_row_step [OF ih(3)] by simp
    with ih q1 show ?thesis
      unfolding loop
      by (intro exI [of _ "SqlSelect (name t) (key_cond t v) # ?w # qs"] exI [of _ "Suc k"])
        simp
  qed
qed


lemma issued_append: "queries db1 = queries db @ qs \<Longrightarrow> issued db db1 = qs"
  by (simp add: issued_def)

lemma insert_onConflictDoUpdate_function_array:
  "onchain t \<Longrightarrow>
   insert_onConflictDoUpdate st (Some t) (Array vs) (SetFunction f) db =
     map_outcome RowsList (upsert_loop st t f [] vs db)"
  by (simp add: insert_onConflictDoUpdate_def queue_add_def wrap_def checkOnchainTable_onchain)

lemma map_outcome_simps [simp]:
  "snd (map_outcome h r) = snd r"
  "fst (map_outcome h r) = Inr y \<longleftrightarrow> (\<exists>x. fst r = Inr x \<and> y = h x)"
  by (auto simp: map_outcome_def split: prod.splits sum.splits)

lemma upsert_fn_trace:
  assumes "t \<in> set schema" and "onchain t"
  shows "(\<exists>k. k \<le> length vs \<and>
            per_row t (take k vs)
              (issued db (snd (insert_onConflictDoUpdate (createRealtimeIndexingStore schema)
                                 (Some t) (Array vs) (SetFunction f) db))) \<and>
            (\<forall>res. fst (insert_onConflictDoUpdate (createRealtimeIndexingStore schema)
                          (Some t) (Array vs) (SetFunction f) db) = Inr res \<longrightarrow>
               k = length vs \<and> (\<exists>rss. res = RowsList rss \<and> length rss = length vs))) \<and>
         (\<forall>v vs1. vs = v # vs1 \<longrightarrow>
            take 2 (issued db (snd (insert_onConflictDoUpdate (createRealtimeIndexingStore schema)
                                      (Some t) (Array vs) (SetFunction f) db))) =
              [SqlSelect (name t) (key_cond t v),
               case List.find (pk_equal t v) (tables db (name t)) of
                 None \<Rightarrow> SqlInsert (name t) [v]
               | Some r \<Rightarrow> SqlUpdate (name t) (f r) (key_cond t v)])"
proof (intro conjI allI impI)
  let ?st = "createRealtimeIndexingStore schema"
  from upsert_loop_per_row [OF assms(1), of f "[]" vs db] obtain qs k where
    qs: "queries (snd (upsert_loop ?st t f [] vs db)) = queries db @ qs"
      "k \<le> length vs" "per_row t (take k vs) qs"
      "\<forall>rss. fst (upsert_loop ?st t f [] vs db) = Inr rss \<longrightarrow>
         k = length vs \<and> length rss = length ([] :: row list list) + length vs"
    by blast
  have "issued db (snd (upsert_loop ?st t f [] vs db)) = qs"
    using issued_append [OF qs(1)] .
  with qs(2,3,4)
  show "\<exists>k. k \<le> length vs \<and>
      per_row t (take k vs)
        (issued db (snd (insert_onConflictDoUpdate ?st (Some t) (Array vs) (SetFunction f) db))) \<and>
      (\<forall>res. fst (insert_onConflictDoUpdate ?st (Some t) (Array vs) (SetFunction f) db) = Inr res \<longrightarrow>
         k = length vs \<and> (\<exists>rss. res = RowsList rss \<and> length rss = length vs))"
    by (intro exI [of _ k]) (auto simp: insert_onConflictDoUpdate_function_array [OF assms(2)])
next
  fix v vs1
  let ?st = "createRealtimeIndexingStore schema"
  let ?w = "case List.find (pk_equal t v) (tables db (name t)) of
              None \<Rightarrow> SqlInsert (name t) [v]
            | Some r \<Rightarrow> SqlUpdate (name t) (f r) (key_cond t v)"
  assume vs: "vs = v # vs1"
  obtain p db1 where one: "upsert_one ?st t f v db = (p, db1)"
    by (cases "upsert_one ?st t f v db")
  have q1: "queries db1 = queries db @ [SqlSelect (name t) (key_cond t v), ?w]"
    using queries_upsert_one [OF assms(1), of f v db] one by simp
  have "\<exists>qs. queries (snd (upsert_loop ?st t f [] vs db)) =
      queries db @ [SqlSelect (name t) (key_cond t v), ?w] @ qs"
  proof (cases p)
    case (Inl e)
    then show ?thesis using one q1 by (simp add: vs)
  next
    case (Inr res)
    from upsert_loop_per_row [OF assms(1), of f "[res]" vs1 db1] obtain qs where
      "queries (snd (upsert_loop ?st t f [res] vs1 db1)) = queries db1 @ qs"
      by blast
    with Inr one q1 show ?thesis by (simp add: vs)
  qed
  then obtain qs where "queries (snd (upsert_loop ?st t f [] vs db)) =
      queries db @ [SqlSelect (name t) (key_cond t v), ?w] @ qs"
    by blast
  then have "issued db (snd (upsert_loop ?st t f [] vs db)) =
      [SqlSelect (name t) (key_cond t v), ?w] @ qs"
    by (rule issued_append)
  then show "take 2 (issued db (snd (insert_onConflictDoUpdate ?st (Some t) (Array vs)
                                       (SetFunction f) db))) =
      [SqlSelect (name t) (key_cond t v), ?w]"
    by (simp add: insert_onConflictDoUpdate_function_array [OF assms(2)])
qed

lemma insert_onConflictDoUpdate_create:
  "t \<in> set schema \<Longrightarrow> onchain t \<Longrightarrow>
   insert_onConflictDoUpdate (createRealtimeIndexingStore schema) (Some t) values valuesU db =
     (case valuesU of
        SetObject s \<Rightarrow>
          map_outcome Rows
            (rethrow (drizzle_insert_onConflictDoUpdate t (as_rows values) (primaryKey t) s db))
      | SetFunction f \<Rightarrow>
          (case values of
             Array vs \<Rightarrow>
               map_outcome RowsList (upsert_loop (createRealtimeIndexingStore schema) t f [] vs db)
           | Single v \<Rightarrow>
               map_outcome Rows (upsert_one (createRealtimeIndexingStore schema) t f v db)))"
  by (simp add: insert_onConflictDoUpdate_def queue_add_def wrap_def checkOnchainTable_onchain
      primaryKeysCache_create split: set_values.splits)

lemma upsert_loop_append:
  "upsert_loop st t f rows (xs @ ys) db =
     (case upsert_loop st t f rows xs db of
        (Inl e, d) \<Rightarrow> (Inl e, d)
      | (Inr rss, d) \<Rightarrow> upsert_loop st t f rss ys d)"
  by (induction xs arbitrary: rows db) (auto split: prod.splits sum.splits)

lemma upsert_loop_one:
  "upsert_loop st t f rows [v] db =
     (case upsert_one st t f v db of
        (Inl e, d) \<Rightarrow> (Inl e, d)
      | (Inr res, d) \<Rightarrow> (Inr (rows @ [res]), d))"
  by (simp split: prod.splits sum.splits)

lemma insert_onConflictDoUpdate_function_single:
  "onchain t \<Longrightarrow>
   insert_onConflictDoUpdate st (Some t) (Single v) (SetFunction f) db =
     map_outcome Rows (upsert_one st t f v db)"
  by (simp add: insert_onConflictDoUpdate_def queue_add_def wrap_def checkOnchainTable_onchain)

lemma map_outcome_eq_Inr:
  "map_outcome h r = (Inr y, d) \<longleftrightarrow> (\<exists>x. r = (Inr x, d) \<and> y = h x)"
  by (cases r) (auto simp: map_outcome_def split: sum.splits)

lemma map_outcome_eq_Inl:
  "map_outcome h r = (Inl e, d) \<longleftrightarrow> r = (Inl e, d)"
  by (cases r) (auto simp: map_outcome_def split: sum.splits)

lemma upsert_loop_first_failure:
  "upsert_loop st t f rows vs db = (Inl e, db1) \<Longrightarrow>
   \<exists>k rss dk. k < length vs \<and> upsert_loop st t f rows (take k vs) db = (Inr rss, dk) \<and>
     upsert_one st t f (vs ! k) dk = (Inl e, db1)"
proof (induction vs arbitrary: rows db)
  case Nil
  then show ?case by simp
next
  case (Cons v vs)
  obtain p d where one: "upsert_one st t f v db = (p, d)" by (cases "upsert_one st t f v db")
  show ?case
  proof (cases p)
    case (Inl e1)
    with one Cons.prems have "upsert_one st t f v db = (Inl e, db1)" by simp
    then show ?thesis
      by (intro exI [of _ 0] exI [of _ rows] exI [of _ db]) simp
  next
    case (Inr res)
    with one Cons.prems have "upsert_loop st t f (rows @ [res]) vs d = (Inl e, db1)" by simp
    from Cons.IH [OF this] obtain k rss dk where
      k: "k < length vs" "upsert_loop st t f (rows @ [res]) (take k vs) d = (Inr rss, dk)"
        "upsert_one st t f (vs ! k) dk = (Inl e, db1)"
      by blast
    with one Inr show ?thesis
      by (intro exI [of _ "Suc k"] exI [of _ rss] exI [of _ dk]) simp
  qed
qed

lemma upsert_loop_length:
  "upsert_loop st t f rows vs db = (Inr rss, db1) \<Longrightarrow> length rss = length rows + length vs"
proof (induction vs arbitrary: rows db)
  case Nil
  then show ?case by simp
next
  case (Cons v vs)
  obtain p d where one: "upsert_one st t f v db = (p, d)" by (cases "upsert_one st t f v db")
  with Cons.prems obtain res where "p = Inr res"
    and "upsert_loop st t f (rows @ [res]) vs d = (Inr rss, db1)"
    by (cases p) auto
  from Cons.IH [OF this(2)] show ?case by simp
qed

lemma upsert_fn_single:
  assumes "t \<in> set schema" and "onchain t"
  shows "upsert_fn schema t f (Single v) d =
     map_outcome Rows
       (case List.find (pk_equal t v) (tables d (name t)) of
          None \<Rightarrow> rethrow (drizzle_insert t [v] (issue (SqlSelect (name t) (key_cond t v)) d))
        | Some r \<Rightarrow> rethrow (drizzle_update t (f r) (key_cond t v)
                              (issue (SqlSelect (name t) (key_cond t v)) d)))"
  by (simp add: insert_onConflictDoUpdate_function_single [OF assms(2)]
      upsert_one_create [OF assms(1)])

lemma upsert_fn_single_issued:
  assumes "t \<in> set schema" and "onchain t"
  shows "issued d (snd (upsert_fn schema t f (Single v) d)) =
     [SqlSelect (name t) (key_cond t v),
      case List.find (pk_equal t v) (tables d (name t)) of
        None \<Rightarrow> SqlInsert (name t) [v]
      | Some r \<Rightarrow> SqlUpdate (name t) (f r) (key_cond t v)]"
  by (rule issued_append)
    (simp add: insert_onConflictDoUpdate_function_single [OF assms(2)]
      queries_upsert_one [OF assms(1)])

lemma upsert_fn_snoc:
  assumes "onchain t"
    and "upsert_fn schema t f (Array xs) db = (Inr (RowsList rss), d)"
  shows "upsert_fn schema t f (Single v) d = (Inr (Rows res), d1) \<Longrightarrow>
         upsert_fn schema t f (Array (xs @ [v])) db = (Inr (RowsList (rss @ [res])), d1)"
    and "upsert_fn schema t f (Single v) d = (Inl e, d1) \<Longrightarrow>
         upsert_fn schema t f (Array (xs @ [v])) db = (Inl e, d1)"
proof -
  let ?st = "createRealtimeIndexingStore schema"
  from assms(2) have xs: "upsert_loop ?st t f [] xs db = (Inr rss, d)"
    by (simp add: insert_onConflictDoUpdate_function_array [OF assms(1)] map_outcome_eq_Inr)
  show "upsert_fn schema t f (Array (xs @ [v])) db = (Inr (RowsList (rss @ [res])), d1)"
    if "upsert_fn schema t f (Single v) d = (Inr (Rows res), d1)"
  proof -
    from that have "upsert_one ?st t f v d = (Inr res, d1)"
      by (simp add: insert_onConflictDoUpdate_function_single [OF assms(1)] map_outcome_eq_Inr)
    then show ?thesis
      by (simp add: insert_onConflictDoUpdate_function_array [OF assms(1)] upsert_loop_append xs
          map_outcome_def del: upsert_loop.simps) simp
  qed
  show "upsert_fn schema t f (Array (xs @ [v])) db = (Inl e, d1)"
    if "upsert_fn schema t f (Single v) d = (Inl e, d1)"
  proof -
    from that have "upsert_one ?st t f v d = (Inl e, d1)"
      by (simp add: insert_onConflictDoUpdate_function_single [OF assms(1)] map_outcome_eq_Inl)
    then show ?thesis
      by (simp add: insert_onConflictDoUpdate_function_array [OF assms(1)] upsert_loop_append xs
          map_outcome_def del: upsert_loop.simps) simp
  qed
qed

lemma upsert_fn_after_failure:
  assumes "onchain t"
    and "upsert_fn schema t f (Array xs) db = (Inl e, d)"
  shows "upsert_fn schema t f (Array (xs @ ys)) db = (Inl e, d)"
proof -
  from assms(2) have "upsert_loop (createRealtimeIndexingStore schema) t f [] xs db = (Inl e, d)"
    by (simp add: insert_onConflictDoUpdate_function_array [OF assms(1)] map_outcome_eq_Inl)
  then show ?thesis
    by (simp add: insert_onConflictDoUpdate_function_array [OF assms(1)] upsert_loop_append
        map_outcome_def)
qed

lemma upsert_fn_failure:
  assumes "onchain t"
    and "upsert_fn schema t f (Array vs) db = (Inl e, db1)"
  shows "\<exists>k rss dk. k < length vs \<and>
     upsert_fn schema t f (Array (take k vs)) db = (Inr (RowsList rss), dk) \<and>
     upsert_fn schema t f (Single (vs ! k)) dk = (Inl e, db1)"
proof -
  let ?st = "createRealtimeIndexingStore schema"
  from assms(2) have "upsert_loop ?st t f [] vs db = (Inl e, db1)"
    by (simp add: insert_onConflictDoUpdate_function_array [OF assms(1)] map_outcome_eq_Inl)
  from upsert_loop_first_failure [OF this] obtain k rss dk where
    k: "k < length vs" "upsert_loop ?st t f [] (take k vs) db = (Inr rss, dk)"
      "upsert_one ?st t f (vs ! k) dk = (Inl e, db1)"
    by blast
  then show ?thesis
    by (intro exI [of _ k] exI [of _ rss] exI [of _ dk])
      (simp add: insert_onConflictDoUpdate_function_array [OF assms(1)]
        insert_onConflictDoUpdate_function_single [OF assms(1)] map_outcome_def)
qed

lemma upsert_object_native:
  assumes "t \<in> set schema" and "onchain t"
  shows "insert_onConflictDoUpdate (createRealtimeIndexingStore schema) (Some t) values
           (SetObject s) db =
         map_outcome Rows
           (rethrow (drizzle_insert_onConflictDoUpdate t (as_rows values) (primaryKey t) s db))"
    and "issued db (snd (insert_onConflictDoUpdate (createRealtimeIndexingStore schema) (Some t)
                           values (SetObject s) db)) =
         [SqlInsertOnConflictDoUpdate (name t) (primaryKey t) (as_rows values) s]"
proof -
  show eq: "insert_onConflictDoUpdate (createRealtimeIndexingStore schema) (Some t) values
           (SetObject s) db =
         map_outcome Rows
           (rethrow (drizzle_insert_onConflictDoUpdate t (as_rows values) (primaryKey t) s db))"
    by (simp add: insert_onConflictDoUpdate_create [OF assms])
  have "queries (snd (drizzle_insert_onConflictDoUpdate t (as_rows values) (primaryKey t) s db)) =
      queries db @ [SqlInsertOnConflictDoUpdate (name t) (primaryKey t) (as_rows values) s]"
    by (simp add: drizzle_insert_onConflictDoUpdate_def Let_def issue_def
        split: sum.splits prod.splits)
  then show "issued db (snd (insert_onConflictDoUpdate (createRealtimeIndexingStore schema) (Some t)
                           values (SetObject s) db)) =
         [SqlInsertOnConflictDoUpdate (name t) (primaryKey t) (as_rows values) s]"
    by (simp add: eq issued_append)
qed

text \<open>
  Claim C4, as amended. On an onchain table of the schema, \<^verbatim>\<open>onConflictDoUpdate\<close>
  with a function handles an array of values one row at a time and in order,
  and with an object it issues one native upsert for the whole array.

  With a function, one row is handled by a select by the primary key of the row,
  followed by the insert of the row when the select found no row, or else by the
  update of the found row with the function's value, under the same condition;
  the outcome is the outcome of that statement. An array is handled row after
  row: the empty array issues nothing; each next row is handled as one row is,
  on the database that the rows before it left, and its result is added to
  theirs; the first row whose statement fails ends the call with that failure,
  and no later row is handled. So the statements issued follow the per-row
  sequence, for all the rows when the call succeeds.

  With an object, whatever the values, the only statement issued is the native
  \<^verbatim>\<open>INSERT ... ON CONFLICT DO UPDATE\<close> over all the values, and its outcome is the
  outcome of the call.
\<close>

theorem upsert_with_function_is_per_row:
  assumes "t \<in> set schema" and "onchain t"
  shows "(\<exists>k. k \<le> length vs \<and>
            per_row t (take k vs) (issued db (snd (upsert_fn schema t f (Array vs) db))) \<and>
            (\<forall>res. fst (upsert_fn schema t f (Array vs) db) = Inr res \<longrightarrow>
               k = length vs \<and> (\<exists>rss. res = RowsList rss \<and> length rss = length vs))) \<and>
         (\<forall>v vs1. vs = v # vs1 \<longrightarrow>
            take 2 (issued db (snd (upsert_fn schema t f (Array vs) db))) =
              [SqlSelect (name t) (key_cond t v),
               case List.find (pk_equal t v) (tables db (name t)) of
                 None \<Rightarrow> SqlInsert (name t) [v]
               | Some r \<Rightarrow> SqlUpdate (name t) (f r) (key_cond t v)]) \<and>
         upsert_fn schema t f (Single v) d0 =
           map_outcome Rows
             (case List.find (pk_equal t v) (tables d0 (name t)) of
                None \<Rightarrow> rethrow (drizzle_insert t [v] (issue (SqlSelect (name t) (key_cond t v)) d0))
              | Some r \<Rightarrow> rethrow (drizzle_update t (f r) (key_cond t v)
                                    (issue (SqlSelect (name t) (key_cond t v)) d0))) \<and>
         issued d0 (snd (upsert_fn schema t f (Single v) d0)) =
           [SqlSelect (name t) (key_cond t v),
            case List.find (pk_equal t v) (tables d0 (name t)) of
              None \<Rightarrow> SqlInsert (name t) [v]
            | Some r \<Rightarrow> SqlUpdate (name t) (f r) (key_cond t v)] \<and>
         upsert_fn schema t f (Array []) db = (Inr (RowsList []), db) \<and>
         (upsert_fn schema t f (Array xs) db = (Inr (RowsList rss), d) \<longrightarrow>
            (\<forall>res d1. upsert_fn schema t f (Single v) d = (Inr (Rows res), d1) \<longrightarrow>
               upsert_fn schema t f (Array (xs @ [v])) db = (Inr (RowsList (rss @ [res])), d1)) \<and>
            (\<forall>e d1. upsert_fn schema t f (Single v) d = (Inl e, d1) \<longrightarrow>
               upsert_fn schema t f (Array (xs @ [v])) db = (Inl e, d1))) \<and>
         (\<forall>e d1. upsert_fn schema t f (Array xs) db = (Inl e, d1) \<longrightarrow>
            upsert_fn schema t f (Array (xs @ ys)) db = (Inl e, d1)) \<and>
         (\<forall>e db1. upsert_fn schema t f (Array vs) db = (Inl e, db1) \<longrightarrow>
            (\<exists>k rss dk. k < length vs \<and>
               upsert_fn schema t f (Array (take k vs)) db = (Inr (RowsList rss), dk) \<and>
               upsert_fn schema t f (Single (vs ! k)) dk = (Inl e, db1))) \<and>
         insert_onConflictDoUpdate (createRealtimeIndexingStore schema) (Some t) values
             (SetObject s) db =
           map_outcome Rows
             (rethrow (drizzle_insert_onConflictDoUpdate t (as_rows values) (primaryKey t) s db)) \<and>
         issued db (snd (insert_onConflictDoUpdate (createRealtimeIndexingStore schema) (Some t)
                           values (SetObject s) db)) =
           [SqlInsertOnConflictDoUpdate (name t) (primaryKey t) (as_rows values) s]"
proof (intro conjI)
  note trace = upsert_fn_trace [OF assms, of vs db f]
  from trace show "\<exists>k. k \<le> length vs \<and>
            per_row t (take k vs) (issued db (snd (upsert_fn schema t f (Array vs) db))) \<and>
            (\<forall>res. fst (upsert_fn schema t f (Array vs) db) = Inr res \<longrightarrow>
               k = length vs \<and> (\<exists>rss. res = RowsList rss \<and> length rss = length vs))"
    by (rule conjunct1)
  from trace show "\<forall>v vs1. vs = v # vs1 \<longrightarrow>
            take 2 (issued db (snd (upsert_fn schema t f (Array vs) db))) =
              [SqlSelect (name t) (key_cond t v),
               case List.find (pk_equal t v) (tables db (name t)) of
                 None \<Rightarrow> SqlInsert (name t) [v]
               | Some r \<Rightarrow> SqlUpdate (name t) (f r) (key_cond t v)]"
    by (rule conjunct2)
  show "upsert_fn schema t f (Single v) d0 =
           map_outcome Rows
             (case List.find (pk_equal t v) (tables d0 (name t)) of
                None \<Rightarrow> rethrow (drizzle_insert t [v] (issue (SqlSelect (name t) (key_cond t v)) d0))
              | Some r \<Rightarrow> rethrow (drizzle_update t (f r) (key_cond t v)
                                    (issue (SqlSelect (name t) (key_cond t v)) d0)))"
    by (rule upsert_fn_single [OF assms])
  show "issued d0 (snd (upsert_fn schema t f (Single v) d0)) =
           [SqlSelect (name t) (key_cond t v),
            case List.find (pk_equal t v) (tables d0 (name t)) of
              None \<Rightarrow> SqlInsert (name t) [v]
            | Some r \<Rightarrow> SqlUpdate (name t) (f r) (key_cond t v)]"
    by (rule upsert_fn_single_issued [OF assms])
  show "upsert_fn schema t f (Array []) db = (Inr (RowsList []), db)"
    by (simp add: insert_onConflictDoUpdate_function_array [OF assms(2)] map_outcome_def)
  show "upsert_fn schema t f (Array xs) db = (Inr (RowsList rss), d) \<longrightarrow>
            (\<forall>res d1. upsert_fn schema t f (Single v) d = (Inr (Rows res), d1) \<longrightarrow>
               upsert_fn schema t f (Array (xs @ [v])) db = (Inr (RowsList (rss @ [res])), d1)) \<and>
            (\<forall>e d1. upsert_fn schema t f (Single v) d = (Inl e, d1) \<longrightarrow>
               upsert_fn schema t f (Array (xs @ [v])) db = (Inl e, d1))"
    using upsert_fn_snoc [OF assms(2)] by blast
  show "\<forall>e d1. upsert_fn schema t f (Array xs) db = (Inl e, d1) \<longrightarrow>
            upsert_fn schema t f (Array (xs @ ys)) db = (Inl e, d1)"
    using upsert_fn_after_failure [OF assms(2)] by blast
  show "\<forall>e db1. upsert_fn schema t f (Array vs) db = (Inl e, db1) \<longrightarrow>
            (\<exists>k rss dk. k < length vs \<and>
               upsert_fn schema t f (Array (take k vs)) db = (Inr (RowsList rss), dk) \<and>
               upsert_fn schema t f (Single (vs ! k)) dk = (Inl e, db1))"
    using upsert_fn_failure [OF assms(2)] by blast
  show "insert_onConflictDoUpdate (createRealtimeIndexingStore schema) (Some t) values
             (SetObject s) db =
           map_outcome Rows
             (rethrow (drizzle_insert_onConflictDoUpdate t (as_rows values) (primaryKey t) s db))"
    by (rule upsert_object_native(1) [OF assms])
  show "issued db (snd (insert_onConflictDoUpdate (createRealtimeIndexingStore schema) (Some t)
                           values (SetObject s) db)) =
           [SqlInsertOnConflictDoUpdate (name t) (primaryKey t) (as_rows values) s]"
    by (rule upsert_object_native(2) [OF assms])
qed


theorem upsert_with_function_is_per_row_witness:
  "\<exists>d. upsert_fn [accounts] accounts (\<lambda>r. [''balance'' \<mapsto> VInt 0]) (Array [alice, bob]) db_alice =
         (Inr (RowsList [[alice ++ [''balance'' \<mapsto> VInt 0]], [bob]]), d) \<and>
       tables d ''b83f__accounts'' = [alice ++ [''balance'' \<mapsto> VInt 0], bob] \<and>
       issued db_alice d =
         [SqlSelect ''b83f__accounts'' [(''address'', Some (VText ''0xa''))],
          SqlUpdate ''b83f__accounts'' [''balance'' \<mapsto> VInt 0]
            [(''address'', Some (VText ''0xa''))],
          SqlSelect ''b83f__accounts'' [(''address'', Some (VText ''0xb''))],
          SqlInsert ''b83f__accounts'' [bob]]"
proof -
  let ?f = "\<lambda>r :: row. [''balance'' \<mapsto> VInt 0]"
  let ?a = "alice ++ [''balance'' \<mapsto> VInt 0]"
  let ?ca = "[(''address'', Some (VText ''0xa''))]"
  let ?cb = "[(''address'', Some (VText ''0xb''))]"
  have mem: "accounts \<in> set [accounts]" by simp
  have on: "onchain accounts" by (simp add: accounts_def)
  have n: "name accounts = ''b83f__accounts''" and pk: "primaryKey accounts = [''address'']"
    by (simp_all add: accounts_def)
  have ca: "key_cond accounts alice = ?ca" and cb: "key_cond accounts bob = ?cb"
    by (simp_all add: key_cond_def accounts_def alice_def bob_def)
  note inst = upsert_with_function_is_per_row [OF mem on]
  (* the first row: alice is in the table, so the store updates her row *)
  define dA where "dA = commit accounts [?a]
      [journal_before OpUpdate (checkpoint db_alice) [''address''] alice]
      (issue (SqlUpdate ''b83f__accounts'' [''balance'' \<mapsto> VInt 0] ?ca)
         (issue (SqlSelect ''b83f__accounts'' ?ca) db_alice))"
  have found_a: "List.find (pk_equal accounts alice) (tables db_alice ''b83f__accounts'') = Some alice"
    by (simp add: db_alice_def accounts_def pk_equal_def alice_def)
  have upd: "drizzle_update accounts [''balance'' \<mapsto> VInt 0] ?ca
        (issue (SqlSelect ''b83f__accounts'' ?ca) db_alice) = (Inr [?a], dA)"
  proof -
    have rows0: "tables db_alice ''b83f__accounts'' = [alice]" by (simp add: db_alice_def)
    have h: "holds ?ca alice" by (simp add: holds_def alice_def)
    show ?thesis
      by (simp add: drizzle_update_def Let_def dA_def n pk rows0 h)
  qed
  from inst [where ?d0.0 = db_alice and v = alice and f = ?f]
  have "upsert_fn [accounts] accounts ?f (Single alice) db_alice =
      map_outcome Rows
        (case List.find (pk_equal accounts alice) (tables db_alice (name accounts)) of
           None \<Rightarrow> rethrow (drizzle_insert accounts [alice]
                               (issue (SqlSelect (name accounts) (key_cond accounts alice)) db_alice))
         | Some r \<Rightarrow> rethrow (drizzle_update accounts [''balance'' \<mapsto> VInt 0]
                                 (key_cond accounts alice)
                                 (issue (SqlSelect (name accounts) (key_cond accounts alice))
                                    db_alice)))"
    by blast
  then have one_a: "upsert_fn [accounts] accounts ?f (Single alice) db_alice = (Inr (Rows [?a]), dA)"
    unfolding n ca found_a by (simp add: upd rethrow_def map_outcome_def)
  from inst [where f = ?f and db = db_alice]
  have empty: "upsert_fn [accounts] accounts ?f (Array []) db_alice = (Inr (RowsList []), db_alice)"
    by blast
  from inst [where f = ?f and db = db_alice and xs = "[]" and rss = "[]" and d = db_alice
      and v = alice] empty one_a
  have arr_a: "upsert_fn [accounts] accounts ?f (Array [alice]) db_alice =
      (Inr (RowsList [[?a]]), dA)"
    by simp
  (* the second row: bob is not in the table that the first row left, so he is inserted *)
  define dB where "dB = commit accounts [?a, bob]
      [journal_insert (checkpoint db_alice) [''address''] bob]
      (issue (SqlInsert ''b83f__accounts'' [bob]) (issue (SqlSelect ''b83f__accounts'' ?cb) dA))"
  have rows_a: "tables dA ''b83f__accounts'' = [?a]" by (simp add: dA_def n)
  have found_b: "List.find (pk_equal accounts bob) (tables dA ''b83f__accounts'') = None"
    unfolding rows_a by (simp add: accounts_def pk_equal_def alice_def bob_def)
  have ins: "drizzle_insert accounts [bob] (issue (SqlSelect ''b83f__accounts'' ?cb) dA) =
      (Inr [bob], dB)"
  proof -
    have fresh: "pk_of [''address''] bob \<noteq> pk_of [''address''] ?a"
      by (simp add: pk_of_def alice_def bob_def)
    have bound: "bob ''address'' \<noteq> None" by (simp add: bob_def)
    have cp: "checkpoint dA = checkpoint db_alice" by (simp add: dA_def)
    show ?thesis
      using fresh bound
      by (simp add: drizzle_insert_def Let_def dB_def n pk rows_a cp)
  qed
  from inst [where ?d0.0 = dA and v = bob and f = ?f]
  have "upsert_fn [accounts] accounts ?f (Single bob) dA =
      map_outcome Rows
        (case List.find (pk_equal accounts bob) (tables dA (name accounts)) of
           None \<Rightarrow> rethrow (drizzle_insert accounts [bob]
                               (issue (SqlSelect (name accounts) (key_cond accounts bob)) dA))
         | Some r \<Rightarrow> rethrow (drizzle_update accounts [''balance'' \<mapsto> VInt 0]
                                 (key_cond accounts bob)
                                 (issue (SqlSelect (name accounts) (key_cond accounts bob)) dA)))"
    by blast
  then have one_b: "upsert_fn [accounts] accounts ?f (Single bob) dA = (Inr (Rows [bob]), dB)"
    unfolding n cb found_b by (simp add: ins rethrow_def map_outcome_def)
  from inst [where f = ?f and db = db_alice and xs = "[alice]" and rss = "[[?a]]" and d = dA
      and v = bob] arr_a one_b
  have arr: "upsert_fn [accounts] accounts ?f (Array [alice, bob]) db_alice =
      (Inr (RowsList [[?a], [bob]]), dB)"
    by simp
  have rows_b: "tables dB ''b83f__accounts'' = [?a, bob]"
    by (simp add: dB_def n)
  have "queries dB = queries db_alice @
      [SqlSelect ''b83f__accounts'' ?ca,
       SqlUpdate ''b83f__accounts'' [''balance'' \<mapsto> VInt 0] ?ca,
       SqlSelect ''b83f__accounts'' ?cb, SqlInsert ''b83f__accounts'' [bob]]"
    by (simp add: dB_def dA_def issue_def)
  then have "issued db_alice dB =
      [SqlSelect ''b83f__accounts'' ?ca,
       SqlUpdate ''b83f__accounts'' [''balance'' \<mapsto> VInt 0] ?ca,
       SqlSelect ''b83f__accounts'' ?cb, SqlInsert ''b83f__accounts'' [bob]]"
    by (rule issued_append)
  with arr rows_b show ?thesis by blast
qed

text \<open>
  Claim C4 as stated also covers an object as the argument of
  \<^verbatim>\<open>onConflictDoUpdate\<close>. There the store issues one native upsert for the whole
  array and no select: for the rows \<^verbatim>\<open>alice\<close> and \<^verbatim>\<open>bob\<close> and the object
  \<^verbatim>\<open>{balance: 0}\<close>, on the empty database, the statements issued are the single
  \<^verbatim>\<open>INSERT ... ON CONFLICT DO UPDATE\<close>, which is not the per-row sequence.
\<close>

theorem upsert_with_object_is_one_statement:
  "issued db0
     (snd (insert_onConflictDoUpdate (createRealtimeIndexingStore [accounts]) (Some accounts)
             (Array [alice, bob]) (SetObject [''balance'' \<mapsto> VInt 0]) db0)) =
     [SqlInsertOnConflictDoUpdate ''b83f__accounts'' [''address''] [alice, bob]
        [''balance'' \<mapsto> VInt 0]] \<and>
   \<not> per_row accounts [alice, bob]
     (issued db0
       (snd (insert_onConflictDoUpdate (createRealtimeIndexingStore [accounts]) (Some accounts)
               (Array [alice, bob]) (SetObject [''balance'' \<mapsto> VInt 0]) db0)))"
proof -
  have "queries (snd (drizzle_insert_onConflictDoUpdate accounts [alice, bob] [''address'']
           [''balance'' \<mapsto> VInt 0] db0)) =
      queries db0 @ [SqlInsertOnConflictDoUpdate ''b83f__accounts'' [''address''] [alice, bob]
        [''balance'' \<mapsto> VInt 0]]"
    by (simp add: drizzle_insert_onConflictDoUpdate_def Let_def issue_def accounts_def
        split: sum.splits prod.splits)
  then have "issued db0
     (snd (insert_onConflictDoUpdate (createRealtimeIndexingStore [accounts]) (Some accounts)
             (Array [alice, bob]) (SetObject [''balance'' \<mapsto> VInt 0]) db0)) =
     [SqlInsertOnConflictDoUpdate ''b83f__accounts'' [''address''] [alice, bob]
        [''balance'' \<mapsto> VInt 0]]"
    by (simp add: insert_onConflictDoUpdate_def queue_add_def wrap_def checkOnchainTable_def
        primaryKeysCache_create issued_append accounts_def)
  then show ?thesis by simp
qed

subsection \<open>The journal\<close>

lemma journal_steps_append:
  "journal_steps t cp (js1 @ js2) a c \<longleftrightarrow>
     (\<exists>b. journal_steps t cp js1 a b \<and> journal_steps t cp js2 b c)"
  by (induction js1 arbitrary: a) auto

lemma journalled_refl: "journalled t db db"
  unfolding journalled_def by (auto intro: exI [of _ "[]"])

lemma journalled_issue: "journalled t db (issue q db)"
  unfolding journalled_def by (auto intro: exI [of _ "[]"])

lemma journalled_trans:
  assumes "journalled t db db1" and "journalled t db1 db2"
  shows "journalled t db db2"
proof -
  from assms(1) obtain js1 where 1: "checkpoint db1 = checkpoint db"
      "\<forall>n. n \<noteq> name t \<longrightarrow> tables db1 n = tables db n \<and> reorg db1 n = reorg db n"
      "reorg db1 (name t) = reorg db (name t) @ js1"
      "journal_steps t (checkpoint db) js1 (tables db (name t)) (tables db1 (name t))"
    unfolding journalled_def by blast
  from assms(2) obtain js2 where 2: "checkpoint db2 = checkpoint db1"
      "\<forall>n. n \<noteq> name t \<longrightarrow> tables db2 n = tables db1 n \<and> reorg db2 n = reorg db1 n"
      "reorg db2 (name t) = reorg db1 (name t) @ js2"
      "journal_steps t (checkpoint db1) js2 (tables db1 (name t)) (tables db2 (name t))"
    unfolding journalled_def by blast
  have "journal_steps t (checkpoint db) (js1 @ js2) (tables db (name t)) (tables db2 (name t))"
    using 1(1,4) 2(4) by (auto simp: journal_steps_append)
  moreover have "reorg db2 (name t) = reorg db (name t) @ js1 @ js2"
    using 1(3) 2(3) by simp
  ultimately show ?thesis
    unfolding journalled_def using 1(1,2) 2(1,2) by auto
qed

lemma journalled_commit:
  "journal_steps t (checkpoint db) js (tables db (name t)) rows \<Longrightarrow>
   journalled t db (commit t rows js (issue q db))"
  unfolding journalled_def by auto

text \<open>Inserts.\<close>

lemma insert_rows_result: "insert_rows pks cur vs = Inr rows \<Longrightarrow> rows = cur @ vs"
proof (induction vs arbitrary: cur)
  case Nil
  then show ?case by simp
next
  case (Cons v vs)
  from Cons.prems have "insert_rows pks (cur @ [v]) vs = Inr rows"
    by (simp split: if_splits)
  from Cons.IH [OF this] show ?case by simp
qed

lemma insert_rows_distinct:
  "insert_rows pks cur vs = Inr rows \<Longrightarrow> distinct (map (pk_of pks) cur) \<Longrightarrow>
   distinct (map (pk_of pks) rows)"
proof (induction vs arbitrary: cur)
  case Nil
  then show ?case by simp
next
  case (Cons v vs)
  from Cons.prems(1) have fresh: "pk_of pks v \<notin> set (map (pk_of pks) cur)"
    and rest: "insert_rows pks (cur @ [v]) vs = Inr rows"
    by (simp_all split: if_splits)
  from fresh Cons.prems(2) have "distinct (map (pk_of pks) (cur @ [v]))" by simp
  from Cons.IH [OF rest this] show ?case .
qed

lemma journal_steps_inserts:
  "journal_steps t cp (map (journal_insert cp (primaryKey t)) vs) cur (cur @ vs)"
proof (induction vs arbitrary: cur)
  case Nil
  show ?case by simp
next
  case (Cons v vs)
  have "shadows t cp (journal_insert cp (primaryKey t) v) cur (cur @ [v])"
    by (auto simp: shadows_def journal_insert_def)
  with Cons [of "cur @ [v]"] show ?case by auto
qed

lemma drizzle_insert_journalled:
  "journalled t db (snd (drizzle_insert t vs db))"
proof (cases "insert_rows (primaryKey t) (tables db (name t)) vs")
  case (Inl e)
  then show ?thesis by (simp add: drizzle_insert_def Let_def journalled_issue)
next
  case (Inr rows)
  then have "rows = tables db (name t) @ vs" by (rule insert_rows_result)
  with Inr show ?thesis
    by (simp add: drizzle_insert_def Let_def journalled_commit journal_steps_inserts)
qed

lemma drizzle_insert_wf:
  "wf_table t db \<Longrightarrow> wf_table t (snd (drizzle_insert t vs db))"
  by (auto simp: drizzle_insert_def Let_def wf_table_def insert_rows_distinct split: sum.splits)

lemma drizzle_insert_atomic: "atomic db (rethrow (drizzle_insert t vs db))"
  by (simp add: atomic_def rethrow_def drizzle_insert_def Let_def split: sum.splits)

lemma insert_rows_do_nothing_result:
  "insert_rows_do_nothing pks cur ins vs = Inr (rows, ins1) \<Longrightarrow>
   \<exists>new. ins1 = ins @ new \<and> rows = cur @ new"
proof (induction vs arbitrary: cur ins)
  case Nil
  then show ?case by simp
next
  case (Cons v vs)
  show ?case
  proof (cases "pk_of pks v \<in> set (map (pk_of pks) cur)")
    case True
    with Cons.prems have "insert_rows_do_nothing pks cur ins vs = Inr (rows, ins1)"
      by (simp split: if_splits)
    then show ?thesis by (rule Cons.IH)
  next
    case False
    with Cons.prems have "insert_rows_do_nothing pks (cur @ [v]) (ins @ [v]) vs = Inr (rows, ins1)"
      by (simp split: if_splits)
    from Cons.IH [OF this] show ?thesis by auto
  qed
qed

lemma insert_rows_do_nothing_distinct:
  "insert_rows_do_nothing pks cur ins vs = Inr (rows, ins1) \<Longrightarrow>
   distinct (map (pk_of pks) cur) \<Longrightarrow> distinct (map (pk_of pks) rows)"
proof (induction vs arbitrary: cur ins)
  case Nil
  then show ?case by simp
next
  case (Cons v vs)
  show ?case
  proof (cases "pk_of pks v \<in> set (map (pk_of pks) cur)")
    case True
    with Cons.prems(1) have "insert_rows_do_nothing pks cur ins vs = Inr (rows, ins1)"
      by (simp split: if_splits)
    from Cons.IH [OF this Cons.prems(2)] show ?thesis .
  next
    case False
    with Cons.prems(1)
    have rest: "insert_rows_do_nothing pks (cur @ [v]) (ins @ [v]) vs = Inr (rows, ins1)"
      by (simp split: if_splits)
    from False Cons.prems(2) have "distinct (map (pk_of pks) (cur @ [v]))" by simp
    from Cons.IH [OF rest this] show ?thesis .
  qed
qed

lemma drizzle_insert_onConflictDoNothing_journalled:
  "journalled t db (snd (drizzle_insert_onConflictDoNothing t vs db))"
proof (cases "insert_rows_do_nothing (primaryKey t) (tables db (name t)) [] vs")
  case (Inl e)
  then show ?thesis by (simp add: drizzle_insert_onConflictDoNothing_def Let_def journalled_issue)
next
  case (Inr p)
  obtain rows ins where p: "p = (rows, ins)" by (cases p)
  with Inr insert_rows_do_nothing_result [of "primaryKey t" "tables db (name t)" "[]" vs rows ins]
  have "rows = tables db (name t) @ ins" by auto
  with Inr p show ?thesis
    by (simp add: drizzle_insert_onConflictDoNothing_def Let_def journalled_commit
        journal_steps_inserts)
qed

lemma drizzle_insert_onConflictDoNothing_wf:
  "wf_table t db \<Longrightarrow> wf_table t (snd (drizzle_insert_onConflictDoNothing t vs db))"
  by (auto simp: drizzle_insert_onConflictDoNothing_def Let_def wf_table_def
      insert_rows_do_nothing_distinct split: sum.splits)

lemma drizzle_insert_onConflictDoNothing_atomic:
  "atomic db (rethrow (drizzle_insert_onConflictDoNothing t vs db))"
  by (simp add: atomic_def rethrow_def drizzle_insert_onConflictDoNothing_def Let_def
      split: sum.splits prod.splits)

text \<open>Updates and deletes by primary key: with distinct primary keys, one row matches.\<close>

lemma holds_key_cond: "holds (key_cond t key) r = pk_equal t key r"
  by (simp add: key_cond_def holds_where)

lemma same_key_same_row:
  "distinct (map f xs) \<Longrightarrow> x \<in> set xs \<Longrightarrow> y \<in> set xs \<Longrightarrow> f x = f y \<Longrightarrow> x = y"
  by (meson distinct_map inj_onD)

lemma pk_equal_iff_row:
  assumes "distinct (map (pk_of (primaryKey t)) xs)" and "old \<in> set xs" and "pk_equal t key old"
    and "r \<in> set xs"
  shows "pk_equal t key r \<longleftrightarrow> r = old"
proof
  assume "pk_equal t key r"
  then have "pk_of (primaryKey t) r = pk_of (primaryKey t) old"
    using pk_equal_pk_of [of t key r] pk_equal_pk_of [OF assms(3)] by simp
  with assms(1,2,4) show "r = old"
    using same_key_same_row [where f = "pk_of (primaryKey t)"] by blast
next
  assume "r = old"
  with assms(3) show "pk_equal t key r" by simp
qed

lemma filter_the_row: "distinct xs \<Longrightarrow> old \<in> set xs \<Longrightarrow> filter (\<lambda>r. r = old) xs = [old]"
  by (induction xs) (auto simp: filter_empty_conv)

lemma matched_rows:
  assumes "distinct (map (pk_of (primaryKey t)) xs)" and "old \<in> set xs" and "pk_equal t key old"
  shows "filter (pk_equal t key) xs = [old]"
    and "filter (\<lambda>r. \<not> pk_equal t key r) xs = filter (\<lambda>r. r \<noteq> old) xs"
    and "map (\<lambda>r. if pk_equal t key r then g r else r) xs =
         map (\<lambda>r. if r = old then g old else r) xs"
proof -
  have iff: "\<And>r. r \<in> set xs \<Longrightarrow> pk_equal t key r \<longleftrightarrow> r = old"
    using pk_equal_iff_row [OF assms] .
  have "distinct xs" using assms(1) by (simp add: distinct_map)
  have "filter (pk_equal t key) xs = filter (\<lambda>r. r = old) xs"
    by (rule filter_cong) (simp_all add: iff)
  then show "filter (pk_equal t key) xs = [old]"
    using filter_the_row [OF \<open>distinct xs\<close> assms(2)] by simp
  show "filter (\<lambda>r. \<not> pk_equal t key r) xs = filter (\<lambda>r. r \<noteq> old) xs"
    by (rule filter_cong) (simp_all add: iff)
  show "map (\<lambda>r. if pk_equal t key r then g r else r) xs =
         map (\<lambda>r. if r = old then g old else r) xs"
    by (rule map_cong) (auto simp: iff)
qed

lemma drizzle_update_journalled:
  assumes "wf_table t db"
  shows "journalled t db (snd (drizzle_update t s (key_cond t key) db))"
proof (cases "\<exists>old \<in> set (tables db (name t)). pk_equal t key old")
  case False
  then have "filter (pk_equal t key) (tables db (name t)) = []"
    by (simp add: filter_empty_conv)
  then show ?thesis
    by (simp add: drizzle_update_def Let_def holds_key_cond [abs_def] journalled_issue)
next
  case True
  then obtain old where old: "old \<in> set (tables db (name t))" "pk_equal t key old" by blast
  let ?cur = "tables db (name t)"
  have d: "distinct (map (pk_of (primaryKey t)) ?cur)"
    using assms by (simp add: wf_table_def)
  note m = matched_rows [OF d old]
  have step: "shadows t (checkpoint db) (journal_before OpUpdate (checkpoint db) (primaryKey t) old)
      ?cur (map (\<lambda>r. if r = old then old ++ s else r) ?cur)"
    using old(1) by (auto simp: shadows_def journal_before_def)
  show ?thesis
    using step
    by (simp add: drizzle_update_def Let_def holds_key_cond [abs_def] m(1)
        m(3) [where g = "\<lambda>r. r ++ s"] journalled_issue journalled_commit)
qed

lemma drizzle_update_wf:
  "wf_table t db \<Longrightarrow> wf_table t (snd (drizzle_update t s c db))"
  by (simp add: drizzle_update_def Let_def wf_table_def)

lemma drizzle_update_atomic: "atomic db (rethrow (drizzle_update t s c db))"
  by (simp add: atomic_def rethrow_def drizzle_update_def Let_def)

lemma drizzle_delete_journalled:
  assumes "wf_table t db"
  shows "journalled t db (snd (drizzle_delete t (key_cond t key) db))"
proof (cases "\<exists>old \<in> set (tables db (name t)). pk_equal t key old")
  case False
  then have "filter (pk_equal t key) (tables db (name t)) = []"
    and "filter (\<lambda>r. \<not> pk_equal t key r) (tables db (name t)) = tables db (name t)"
    by (simp_all add: filter_empty_conv)
  then show ?thesis
    by (simp add: drizzle_delete_def Let_def holds_key_cond [abs_def] journalled_commit)
next
  case True
  then obtain old where old: "old \<in> set (tables db (name t))" "pk_equal t key old" by blast
  let ?cur = "tables db (name t)"
  have d: "distinct (map (pk_of (primaryKey t)) ?cur)"
    using assms by (simp add: wf_table_def)
  note m = matched_rows [OF d old]
  have step: "shadows t (checkpoint db) (journal_before OpDelete (checkpoint db) (primaryKey t) old)
      ?cur (filter (\<lambda>r. r \<noteq> old) ?cur)"
    using old(1) by (auto simp: shadows_def journal_before_def)
  show ?thesis
    using step
    by (simp add: drizzle_delete_def Let_def holds_key_cond [abs_def] m(1) m(2) journalled_commit)
qed

lemma drizzle_delete_wf:
  "wf_table t db \<Longrightarrow> wf_table t (snd (drizzle_delete t c db))"
  by (simp add: drizzle_delete_def Let_def wf_table_def distinct_map_filter)

text \<open>The native upsert.\<close>

lemma distinct_replace:
  "distinct (map f xs) \<Longrightarrow> old \<in> set xs \<Longrightarrow> f new = f old \<or> f new \<notin> f ` set xs \<Longrightarrow>
   distinct (map f (map (\<lambda>r. if r = old then new else r) xs))"
proof (induction xs)
  case Nil
  then show ?case by simp
next
  case (Cons x xs)
  show ?case
  proof (cases "x = old")
    case True
    with Cons.prems(1) have notin: "old \<notin> set xs" by auto
    then have same: "map (\<lambda>r. if r = old then new else r) xs = xs"
      by (induction xs) auto
    from Cons.prems(1,3) True have "f new \<notin> f ` set xs" by auto
    with Cons.prems(1) True same show ?thesis by simp
  next
    case False
    with Cons.prems(2) have mem: "old \<in> set xs" by simp
    from Cons.prems(3) have "f new = f old \<or> f new \<notin> f ` set xs" by auto
    with Cons.IH mem Cons.prems(1)
    have ih: "distinct (map f (map (\<lambda>r. if r = old then new else r) xs))" by simp
    from Cons.prems(1) mem have "f x \<noteq> f old" by auto
    with Cons.prems(3) have "f new \<noteq> f x" by auto
    moreover from Cons.prems(1) have fx: "f x \<notin> f ` set xs" by simp
    then have "\<forall>r \<in> set xs. f r \<noteq> f x" by (metis image_eqI)
    ultimately have "\<forall>r \<in> set xs. f (if r = old then new else r) \<noteq> f x"
      by simp
    with ih False show ?thesis by (auto simp: image_iff)
  qed
qed

lemma replace_by_key:
  assumes "distinct (map f xs)" and "old \<in> set xs"
  shows "map (\<lambda>r. if f r = f old then new else r) xs = map (\<lambda>r. if r = old then new else r) xs"
proof (rule map_cong)
  fix r assume "r \<in> set xs"
  then have "f r = f old \<longleftrightarrow> r = old"
    using same_key_same_row [OF assms(1) _ assms(2)] by auto
  then show "(if f r = f old then new else r) = (if r = old then new else r)" by simp
qed simp

lemma upsert_rows_steps:
  assumes "upsert_rows cp (primaryKey t) (primaryKey t) s seen cur out js vs = Inr (rows, out1, js1)"
    and "distinct (map (pk_of (primaryKey t)) cur)"
  shows "\<exists>new. js1 = js @ new \<and> journal_steps t cp new cur rows \<and>
               distinct (map (pk_of (primaryKey t)) rows)"
  using assms
proof (induction vs arbitrary: seen cur out js)
  case Nil
  then show ?case by simp
next
  case (Cons v vs)
  let ?pks = "primaryKey t"
  from Cons.prems(1) have bound: "\<not> (\<exists>c \<in> set ?pks. v c = None)"
    by (auto split: if_splits)
  show ?case
  proof (cases "filter (\<lambda>r. pk_of ?pks r = pk_of ?pks v) cur")
    case Nil
    with Cons.prems(1) bound have fresh: "pk_of ?pks v \<notin> set (map (pk_of ?pks) cur)"
      and rest: "upsert_rows cp ?pks ?pks s (pk_of ?pks v # seen) (cur @ [v]) (out @ [v])
                   (js @ [journal_insert cp ?pks v]) vs = Inr (rows, out1, js1)"
      by (simp_all split: if_splits)
    from fresh Cons.prems(2) have "distinct (map (pk_of ?pks) (cur @ [v]))" by simp
    from Cons.IH [OF rest this] obtain new where
      new: "js1 = (js @ [journal_insert cp ?pks v]) @ new"
        "journal_steps t cp new (cur @ [v]) rows" "distinct (map (pk_of ?pks) rows)"
      by blast
    have "shadows t cp (journal_insert cp ?pks v) cur (cur @ [v])"
      by (auto simp: shadows_def journal_insert_def)
    with new(2) have "journal_steps t cp (journal_insert cp ?pks v # new) cur rows" by auto
    with new(1,3) show ?thesis by (intro exI [of _ "journal_insert cp ?pks v # new"]) simp
  next
    case (Cons old others)
    then have "old \<in> set (filter (\<lambda>r. pk_of ?pks r = pk_of ?pks v) cur)" by simp
    then have old: "old \<in> set cur" by simp
    let ?new = "old ++ s"
    let ?cur1 = "map (\<lambda>r. if pk_of ?pks r = pk_of ?pks old then ?new else r) cur"
    from Cons.prems(1) bound Cons
    have ok: "pk_of ?pks ?new = pk_of ?pks old \<or> pk_of ?pks ?new \<notin> pk_of ?pks ` set cur"
      and rest: "upsert_rows cp ?pks ?pks s (pk_of ?pks ?new # seen) ?cur1 (out @ [?new])
                   (js @ [journal_before OpUpdate cp ?pks old]) vs = Inr (rows, out1, js1)"
      by (auto split: if_splits)
    have cur1: "?cur1 = map (\<lambda>r. if r = old then ?new else r) cur"
      using replace_by_key [OF Cons.prems(2) old] .
    have "distinct (map (pk_of ?pks) ?cur1)"
      unfolding cur1 using distinct_replace [OF Cons.prems(2) old ok] .
    from Cons.IH [OF rest this] obtain new where
      new: "js1 = (js @ [journal_before OpUpdate cp ?pks old]) @ new"
        "journal_steps t cp new ?cur1 rows" "distinct (map (pk_of ?pks) rows)"
      by blast
    have "shadows t cp (journal_before OpUpdate cp ?pks old) cur ?cur1"
      unfolding cur1 using old by (auto simp: shadows_def journal_before_def)
    with new(2) have "journal_steps t cp (journal_before OpUpdate cp ?pks old # new) cur rows"
      by auto
    with new(1,3) show ?thesis
      by (intro exI [of _ "journal_before OpUpdate cp ?pks old # new"]) simp
  qed
qed

lemma drizzle_insert_onConflictDoUpdate_journalled:
  assumes "wf_table t db"
  shows "journalled t db (snd (drizzle_insert_onConflictDoUpdate t vs (primaryKey t) s db)) \<and>
         wf_table t (snd (drizzle_insert_onConflictDoUpdate t vs (primaryKey t) s db))"
proof (cases "upsert_rows (checkpoint db) (primaryKey t) (primaryKey t) s [] (tables db (name t))
                [] [] vs")
  case (Inl e)
  with assms show ?thesis
    by (simp add: drizzle_insert_onConflictDoUpdate_def Let_def journalled_issue wf_table_def)
next
  case (Inr p)
  obtain rows out js where p: "p = (rows, out, js)" by (cases p)
  from assms have "distinct (map (pk_of (primaryKey t)) (tables db (name t)))"
    by (simp add: wf_table_def)
  with upsert_rows_steps [of "checkpoint db" t s "[]" "tables db (name t)" "[]" "[]" vs rows out js]
    Inr p
  have "journal_steps t (checkpoint db) js (tables db (name t)) rows"
    and "distinct (map (pk_of (primaryKey t)) rows)"
    by auto
  with Inr p show ?thesis
    by (simp add: drizzle_insert_onConflictDoUpdate_def Let_def journalled_commit wf_table_def)
qed

lemma drizzle_insert_onConflictDoUpdate_atomic:
  "atomic db (rethrow (drizzle_insert_onConflictDoUpdate t vs target s db))"
  by (simp add: atomic_def rethrow_def drizzle_insert_onConflictDoUpdate_def Let_def
      split: sum.splits prod.splits)

text \<open>The operations of the store.\<close>

lemma wf_table_issue [simp]: "wf_table t (issue q db) = wf_table t db"
  by (simp add: wf_table_def)

lemma atomic_issue:
  "atomic (issue q db) r \<Longrightarrow> atomic db r"
  by (simp add: atomic_def split: prod.splits sum.splits)

lemma atomic_map_outcome [simp]: "atomic db (map_outcome h r) = atomic db r"
  by (simp add: atomic_def map_outcome_def split: prod.splits sum.splits)

lemma upsert_one_journalled:
  assumes "t \<in> set schema" and "wf_table t db"
  shows "journalled t db (snd (upsert_one (createRealtimeIndexingStore schema) t f v db))"
    and "wf_table t (snd (upsert_one (createRealtimeIndexingStore schema) t f v db))"
    and "atomic db (upsert_one (createRealtimeIndexingStore schema) t f v db)"
proof -
  let ?db1 = "issue (SqlSelect (name t) (key_cond t v)) db"
  have wf1: "wf_table t ?db1" using assms(2) by simp
  have j1: "journalled t db ?db1" by (rule journalled_issue)
  show "journalled t db (snd (upsert_one (createRealtimeIndexingStore schema) t f v db))"
    using journalled_trans [OF j1 drizzle_insert_journalled [of t ?db1 "[v]"]]
      journalled_trans [OF j1 drizzle_update_journalled [OF wf1]]
    by (simp add: upsert_one_create [OF assms(1)] split: option.splits)
  show "wf_table t (snd (upsert_one (createRealtimeIndexingStore schema) t f v db))"
    using drizzle_insert_wf [OF wf1] drizzle_update_wf [OF wf1]
    by (simp add: upsert_one_create [OF assms(1)] split: option.splits)
  show "atomic db (upsert_one (createRealtimeIndexingStore schema) t f v db)"
    using atomic_issue [OF drizzle_insert_atomic [of ?db1]]
      atomic_issue [OF drizzle_update_atomic [of ?db1]]
    by (simp add: upsert_one_create [OF assms(1)] split: option.splits)
qed

lemma upsert_loop_journalled:
  assumes "t \<in> set schema"
  shows "wf_table t db \<Longrightarrow>
    journalled t db (snd (upsert_loop (createRealtimeIndexingStore schema) t f rows vs db)) \<and>
    wf_table t (snd (upsert_loop (createRealtimeIndexingStore schema) t f rows vs db))"
proof (induction vs arbitrary: rows db)
  case Nil
  then show ?case by (simp add: journalled_refl)
next
  case (Cons v vs)
  let ?st = "createRealtimeIndexingStore schema"
  obtain p db1 where one: "upsert_one ?st t f v db = (p, db1)" by (cases "upsert_one ?st t f v db")
  from upsert_one_journalled (1,2) [OF assms Cons.prems, of f v] one
  have j1: "journalled t db db1" and wf1: "wf_table t db1" by simp_all
  show ?case
  proof (cases p)
    case (Inl e)
    with one j1 wf1 show ?thesis by simp
  next
    case (Inr res)
    from Cons.IH [OF wf1, of "rows @ [res]"] j1
    have "journalled t db (snd (upsert_loop ?st t f (rows @ [res]) vs db1))"
      and "wf_table t (snd (upsert_loop ?st t f (rows @ [res]) vs db1))"
      using journalled_trans by blast+
    with one Inr show ?thesis by simp
  qed
qed

text \<open>
  The loop stops at the first statement that fails: the tables and journals are
  then those left by the rows before it, which had succeeded.
\<close>

lemma upsert_loop_failure:
  assumes "t \<in> set schema"
  shows "wf_table t db \<Longrightarrow>
    upsert_loop (createRealtimeIndexingStore schema) t f rows vs db = (Inl e, db1) \<Longrightarrow>
    \<exists>k rss dbk. k < length vs \<and>
       upsert_loop (createRealtimeIndexingStore schema) t f rows (take k vs) db = (Inr rss, dbk) \<and>
       tables db1 = tables dbk \<and> reorg db1 = reorg dbk"
proof (induction vs arbitrary: rows db)
  case Nil
  then show ?case by simp
next
  case (Cons v vs)
  let ?st = "createRealtimeIndexingStore schema"
  obtain p db2 where one: "upsert_one ?st t f v db = (p, db2)" by (cases "upsert_one ?st t f v db")
  show ?case
  proof (cases p)
    case (Inl e1)
    with one Cons.prems(2) have "db1 = db2" by simp
    moreover from upsert_one_journalled(3) [OF assms Cons.prems(1), of f v] one Inl
    have "tables db2 = tables db \<and> reorg db2 = reorg db" by (simp add: atomic_def)
    ultimately show ?thesis
      by (intro exI [of _ 0] exI [of _ rows] exI [of _ db]) simp
  next
    case (Inr res)
    with one Cons.prems(2)
    have rest: "upsert_loop ?st t f (rows @ [res]) vs db2 = (Inl e, db1)" by simp
    from upsert_one_journalled(2) [OF assms Cons.prems(1), of f v] one
    have "wf_table t db2" by simp
    from Cons.IH [OF this rest] obtain k rss dbk where
      k: "k < length vs" "upsert_loop ?st t f (rows @ [res]) (take k vs) db2 = (Inr rss, dbk)"
        "tables db1 = tables dbk" "reorg db1 = reorg dbk"
      by blast
    with one Inr show ?thesis
      by (intro exI [of _ "Suc k"] exI [of _ rss] exI [of _ dbk]) simp
  qed
qed

lemma insert_onConflictDoNothing_create:
  "onchain t \<Longrightarrow>
   insert_onConflictDoNothing st (Some t) values db =
     rethrow (drizzle_insert_onConflictDoNothing t (as_rows values) db)"
  by (simp add: insert_onConflictDoNothing_def queue_add_def wrap_def checkOnchainTable_onchain)

lemma indexingStore_update_create:
  "t \<in> set schema \<Longrightarrow> onchain t \<Longrightarrow>
   indexingStore_update (createRealtimeIndexingStore schema) (Some t) key values db =
     (case values of
        SetFunction f \<Rightarrow>
          (case List.find (pk_equal t key) (tables db (name t)) of
             None \<Rightarrow>
               (Inl (RecordNotFoundError (''No existing record found in table '' @ quoted (user t))),
                issue (SqlSelect (name t) (key_cond t key)) db)
           | Some r \<Rightarrow>
               rethrow (drizzle_update t (f r) (key_cond t key)
                          (issue (SqlSelect (name t) (key_cond t key)) db)))
      | SetObject s \<Rightarrow> rethrow (drizzle_update t s (key_cond t key) db))"
  by (simp add: indexingStore_update_def queue_add_def wrap_def checkOnchainTable_onchain
      find_row_create getWhereCondition_create tableNameCache_create key_cond_def
      split: set_values.splits option.splits)

lemma drizzle_update_after_select_journalled:
  assumes "wf_table t db"
  shows "journalled t db (snd (drizzle_update t s (key_cond t key) (issue q db)))"
proof -
  have "wf_table t (issue q db)" using assms by simp
  from journalled_trans [OF journalled_issue drizzle_update_journalled [OF this]]
  show ?thesis .
qed

lemma writes_journalled_and_atomic:
  assumes "t \<in> set schema" and "onchain t" and "wf_table t db"
  shows
    "journalled t db (snd (insert_then (createRealtimeIndexingStore schema) (Some t) values f g db)) \<and>
     atomic db (await (insert_then (createRealtimeIndexingStore schema) (Some t) values) db) \<and>
     journalled t db
       (snd (insert_onConflictDoNothing (createRealtimeIndexingStore schema) (Some t) values db)) \<and>
     atomic db (insert_onConflictDoNothing (createRealtimeIndexingStore schema) (Some t) values db) \<and>
     journalled t db
       (snd (insert_onConflictDoUpdate (createRealtimeIndexingStore schema) (Some t) values
               valuesU db)) \<and>
     atomic db (insert_onConflictDoUpdate (createRealtimeIndexingStore schema) (Some t) values
                  (SetObject s) db) \<and>
     atomic db (insert_onConflictDoUpdate (createRealtimeIndexingStore schema) (Some t) (Single v)
                  (SetFunction h) db) \<and>
     (\<forall>e db1.
        insert_onConflictDoUpdate (createRealtimeIndexingStore schema) (Some t) (Array vs)
          (SetFunction h) db = (Inl e, db1) \<longrightarrow>
        (\<exists>k rss dbk. k < length vs \<and>
           insert_onConflictDoUpdate (createRealtimeIndexingStore schema) (Some t)
             (Array (take k vs)) (SetFunction h) db = (Inr (RowsList rss), dbk) \<and>
           tables db1 = tables dbk \<and> reorg db1 = reorg dbk)) \<and>
     journalled t db
       (snd (indexingStore_update (createRealtimeIndexingStore schema) (Some t) key sv db)) \<and>
     atomic db (indexingStore_update (createRealtimeIndexingStore schema) (Some t) key sv db) \<and>
     journalled t db
       (snd (indexingStore_delete (createRealtimeIndexingStore schema) (Some t) key db)) \<and>
     atomic db (indexingStore_delete (createRealtimeIndexingStore schema) (Some t) key db)"
proof (intro conjI allI impI)
  let ?st = "createRealtimeIndexingStore schema"
  note mem = assms(1) and on = assms(2) and wf = assms(3)
  show "journalled t db (snd (insert_then ?st (Some t) values f g db))"
    by (simp add: insert_then_onchain [OF on] drizzle_insert_journalled)
  show "atomic db (await (insert_then ?st (Some t) values) db)"
    by (simp add: await_insert_then_onchain [OF on] drizzle_insert_atomic)
  show "journalled t db (snd (insert_onConflictDoNothing ?st (Some t) values db))"
    by (simp add: insert_onConflictDoNothing_create [OF on]
        drizzle_insert_onConflictDoNothing_journalled)
  show "atomic db (insert_onConflictDoNothing ?st (Some t) values db)"
    by (simp add: insert_onConflictDoNothing_create [OF on]
        drizzle_insert_onConflictDoNothing_atomic)
  show "journalled t db (snd (insert_onConflictDoUpdate ?st (Some t) values valuesU db))"
    using drizzle_insert_onConflictDoUpdate_journalled [OF wf]
      upsert_loop_journalled [OF mem wf] upsert_one_journalled(1) [OF mem wf]
    by (simp add: insert_onConflictDoUpdate_create [OF mem on]
        split: set_values.splits insert_values.splits)
  show "atomic db (insert_onConflictDoUpdate ?st (Some t) values (SetObject s) db)"
    by (simp add: insert_onConflictDoUpdate_create [OF mem on]
        drizzle_insert_onConflictDoUpdate_atomic)
  show "atomic db (insert_onConflictDoUpdate ?st (Some t) (Single v) (SetFunction h) db)"
    by (simp add: insert_onConflictDoUpdate_create [OF mem on]
        upsert_one_journalled(3) [OF mem wf])
  show "journalled t db (snd (indexingStore_update ?st (Some t) key sv db))"
    using drizzle_update_journalled [OF wf] drizzle_update_after_select_journalled [OF wf]
    by (simp add: indexingStore_update_create [OF mem on] journalled_issue
        split: set_values.splits option.splits)
  show "atomic db (indexingStore_update ?st (Some t) key sv db)"
    using drizzle_update_atomic [of db] atomic_issue [OF drizzle_update_atomic]
    by (simp add: indexingStore_update_create [OF mem on] split: set_values.splits option.splits)
      (simp add: atomic_def)
  show "journalled t db (snd (indexingStore_delete ?st (Some t) key db))"
    using drizzle_delete_journalled [OF wf, of key]
    by (auto simp: indexingStore_delete_def queue_add_def wrap_def checkOnchainTable_onchain [OF on]
        getWhereCondition_create [OF mem] key_cond_def split: prod.splits)
  show "atomic db (indexingStore_delete ?st (Some t) key db)"
    by (simp add: indexingStore_delete_def queue_add_def wrap_def checkOnchainTable_onchain [OF on]
        getWhereCondition_create [OF mem] atomic_def split: prod.splits)
next
  fix e db1
  let ?st = "createRealtimeIndexingStore schema"
  assume "insert_onConflictDoUpdate ?st (Some t) (Array vs) (SetFunction h) db = (Inl e, db1)"
  then have "upsert_loop ?st t h [] vs db = (Inl e, db1)"
    by (simp add: insert_onConflictDoUpdate_function_array [OF assms(2)] map_outcome_def
        split: prod.splits sum.splits)
  from upsert_loop_failure [OF assms(1,3) this] obtain k rss dbk where
    k: "k < length vs" "upsert_loop ?st t h [] (take k vs) db = (Inr rss, dbk)"
      "tables db1 = tables dbk" "reorg db1 = reorg dbk"
    by blast
  then show "\<exists>k rss dbk. k < length vs \<and>
      insert_onConflictDoUpdate ?st (Some t) (Array (take k vs)) (SetFunction h) db =
        (Inr (RowsList rss), dbk) \<and>
      tables db1 = tables dbk \<and> reorg db1 = reorg dbk"
    by (intro exI [of _ k] exI [of _ rss] exI [of _ dbk])
      (simp add: insert_onConflictDoUpdate_function_array [OF assms(2)] map_outcome_def)
qed

text \<open>What a statement that succeeds has written, and its journal rows.\<close>

lemma drizzle_insert_success:
  assumes "drizzle_insert t vs db = (Inr res, db1)"
  shows "res = vs"
    and "tables db1 (name t) = tables db (name t) @ vs"
    and "reorg db1 (name t) =
           reorg db (name t) @ map (journal_insert (checkpoint db) (primaryKey t)) vs"
proof -
  from assms obtain rows where rows: "insert_rows (primaryKey t) (tables db (name t)) vs = Inr rows"
    by (cases "insert_rows (primaryKey t) (tables db (name t)) vs")
      (auto simp: drizzle_insert_def Let_def)
  then have "rows = tables db (name t) @ vs" by (rule insert_rows_result)
  with assms rows show "res = vs" and "tables db1 (name t) = tables db (name t) @ vs"
    and "reorg db1 (name t) =
           reorg db (name t) @ map (journal_insert (checkpoint db) (primaryKey t)) vs"
    by (auto simp: drizzle_insert_def Let_def)
qed

lemma drizzle_insert_onConflictDoNothing_success:
  assumes "drizzle_insert_onConflictDoNothing t vs db = (Inr ins, db1)"
  shows "tables db1 (name t) = tables db (name t) @ ins"
    and "reorg db1 (name t) =
           reorg db (name t) @ map (journal_insert (checkpoint db) (primaryKey t)) ins"
proof -
  from assms obtain rows where
    rows: "insert_rows_do_nothing (primaryKey t) (tables db (name t)) [] vs = Inr (rows, ins)"
    and db1: "db1 = commit t rows (map (journal_insert (checkpoint db) (primaryKey t)) ins)
                      (issue (SqlInsertOnConflictDoNothing (name t) vs) db)"
    by (cases "insert_rows_do_nothing (primaryKey t) (tables db (name t)) [] vs")
      (auto simp: drizzle_insert_onConflictDoNothing_def Let_def)
  from insert_rows_do_nothing_result [OF rows] have "rows = tables db (name t) @ ins" by simp
  with db1 show "tables db1 (name t) = tables db (name t) @ ins"
    and "reorg db1 (name t) =
           reorg db (name t) @ map (journal_insert (checkpoint db) (primaryKey t)) ins"
    by simp_all
qed

lemma drizzle_update_missing:
  "\<forall>r \<in> set (tables db (name t)). \<not> pk_equal t key r \<Longrightarrow>
   drizzle_update t s (key_cond t key) db = (Inr [], issue (SqlUpdate (name t) s (key_cond t key)) db)"
  by (simp add: drizzle_update_def Let_def holds_key_cond [abs_def] filter_empty_conv)

lemma drizzle_update_success:
  assumes "drizzle_update t s (key_cond t key) db = (Inr res, db1)"
    and "wf_table t db" and "old \<in> set (tables db (name t))" and "pk_equal t key old"
  shows "res = [old ++ s]"
    and "tables db1 (name t) = map (\<lambda>r. if r = old then old ++ s else r) (tables db (name t))"
    and "reorg db1 (name t) =
           reorg db (name t) @ [journal_before OpUpdate (checkpoint db) (primaryKey t) old]"
proof -
  have d: "distinct (map (pk_of (primaryKey t)) (tables db (name t)))"
    using assms(2) by (simp add: wf_table_def)
  note m = matched_rows [OF d assms(3,4)]
  from assms(1)
  show "res = [old ++ s]"
    and "tables db1 (name t) = map (\<lambda>r. if r = old then old ++ s else r) (tables db (name t))"
    and "reorg db1 (name t) =
           reorg db (name t) @ [journal_before OpUpdate (checkpoint db) (primaryKey t) old]"
    by (auto simp: drizzle_update_def Let_def holds_key_cond [abs_def] m(1)
        m(3) [where g = "\<lambda>r. r ++ s"] split: if_splits)
qed

lemma drizzle_delete_missing:
  "\<forall>r \<in> set (tables db (name t)). \<not> pk_equal t key r \<Longrightarrow>
   drizzle_delete t (key_cond t key) db = ([], db1) \<Longrightarrow>
   tables db1 = tables db \<and> reorg db1 = reorg db"
  by (auto simp: drizzle_delete_def Let_def holds_key_cond [abs_def] filter_empty_conv)

lemma drizzle_delete_success:
  assumes "drizzle_delete t (key_cond t key) db = (deleted, db1)"
    and "wf_table t db" and "old \<in> set (tables db (name t))" and "pk_equal t key old"
  shows "deleted = [old]"
    and "tables db1 (name t) = filter (\<lambda>r. r \<noteq> old) (tables db (name t))"
    and "reorg db1 (name t) =
           reorg db (name t) @ [journal_before OpDelete (checkpoint db) (primaryKey t) old]"
proof -
  have d: "distinct (map (pk_of (primaryKey t)) (tables db (name t)))"
    using assms(2) by (simp add: wf_table_def)
  note m = matched_rows [OF d assms(3,4)]
  from assms(1)
  show "deleted = [old]"
    and "tables db1 (name t) = filter (\<lambda>r. r \<noteq> old) (tables db (name t))"
    and "reorg db1 (name t) =
           reorg db (name t) @ [journal_before OpDelete (checkpoint db) (primaryKey t) old]"
    by (auto simp: drizzle_delete_def Let_def holds_key_cond [abs_def] m(1) m(2))
qed

lemma upsert_rows_written:
  "upsert_rows cp (primaryKey t) target s seen cur out js vs = Inr (rows, out1, js1) \<Longrightarrow>
   \<exists>outn jsn. out1 = out @ outn \<and> js1 = js @ jsn \<and> length outn = length vs \<and>
     list_all2 (journal_row_of t cp) outn jsn"
proof (induction vs arbitrary: seen cur out js)
  case Nil
  then show ?case by simp
next
  case (Cons v vs)
  let ?pks = "primaryKey t"
  show ?case
  proof (cases "filter (\<lambda>r. pk_of target r = pk_of target v) cur")
    case Nil
    with Cons.prems
    have "upsert_rows cp ?pks target s (pk_of ?pks v # seen) (cur @ [v]) (out @ [v])
            (js @ [journal_insert cp ?pks v]) vs = Inr (rows, out1, js1)"
      by (simp split: if_splits)
    from Cons.IH [OF this] obtain outn jsn where
      n: "out1 = (out @ [v]) @ outn" "js1 = (js @ [journal_insert cp ?pks v]) @ jsn"
        "length outn = length vs" "list_all2 (journal_row_of t cp) outn jsn"
      by blast
    have "journal_row_of t cp v (journal_insert cp ?pks v)"
      by (simp add: journal_row_of_def)
    with n show ?thesis
      by (intro exI [of _ "v # outn"] exI [of _ "journal_insert cp ?pks v # jsn"]) simp
  next
    case (Cons old others)
    let ?new = "old ++ s"
    from Cons.prems Cons
    have "upsert_rows cp ?pks target s (pk_of ?pks ?new # seen)
            (map (\<lambda>r. if pk_of ?pks r = pk_of ?pks old then ?new else r) cur) (out @ [?new])
            (js @ [journal_before OpUpdate cp ?pks old]) vs = Inr (rows, out1, js1)"
      by (simp split: if_splits)
    from Cons.IH [OF this] obtain outn jsn where
      n: "out1 = (out @ [?new]) @ outn" "js1 = (js @ [journal_before OpUpdate cp ?pks old]) @ jsn"
        "length outn = length vs" "list_all2 (journal_row_of t cp) outn jsn"
      by blast
    have "journal_row_of t cp ?new (journal_before OpUpdate cp ?pks old)"
      by (auto simp: journal_row_of_def)
    with n show ?thesis
      by (intro exI [of _ "?new # outn"] exI [of _ "journal_before OpUpdate cp ?pks old # jsn"])
        simp
  qed
qed

lemma drizzle_insert_onConflictDoUpdate_success:
  assumes "drizzle_insert_onConflictDoUpdate t vs target s db = (Inr out, db1)"
  shows "\<exists>js. length out = length vs \<and> reorg db1 (name t) = reorg db (name t) @ js \<and>
              list_all2 (journal_row_of t (checkpoint db)) out js"
proof -
  from assms obtain rows js where
    up: "upsert_rows (checkpoint db) (primaryKey t) target s [] (tables db (name t)) [] [] vs =
           Inr (rows, out, js)"
    and db1: "db1 = commit t rows js (issue (SqlInsertOnConflictDoUpdate (name t) target vs s) db)"
    by (cases "upsert_rows (checkpoint db) (primaryKey t) target s [] (tables db (name t)) [] [] vs")
      (auto simp: drizzle_insert_onConflictDoUpdate_def Let_def)
  from upsert_rows_written [OF up] have "length out = length vs"
    and "list_all2 (journal_row_of t (checkpoint db)) out js"
    by auto
  with db1 show ?thesis by (intro exI [of _ js]) simp
qed

lemma rethrow_eq_Inr: "rethrow r = (Inr x, d) \<longleftrightarrow> r = (Inr x, d)"
  by (cases r) (auto simp: rethrow_def split: sum.splits)

lemma find_the_row:
  assumes "wf_table t db" and "old \<in> set (tables db (name t))" and "pk_equal t key old"
  shows "List.find (pk_equal t key) (tables db (name t)) = Some old"
proof (rule find_unique [where f = "pk_of (primaryKey t)" and P = "pk_equal t key"])
  show "distinct (map (pk_of (primaryKey t)) (tables db (name t)))"
    using assms(1) by (simp add: wf_table_def)
  show "old \<in> set (tables db (name t))" by (rule assms(2))
  show "pk_equal t key old" by (rule assms(3))
  fix y assume "pk_equal t key y"
  then show "pk_of (primaryKey t) y = pk_of (primaryKey t) old"
    using pk_equal_pk_of [OF assms(3)] pk_equal_pk_of [of t key y] by simp
qed

lemma upsert_one_success:
  assumes "t \<in> set schema" and "wf_table t db"
    and "upsert_one (createRealtimeIndexingStore schema) t f v db = (Inr res, db1)"
  shows "(\<forall>r \<in> set (tables db (name t)). \<not> pk_equal t v r) \<longrightarrow>
           res = [v] \<and> tables db1 (name t) = tables db (name t) @ [v] \<and>
           reorg db1 (name t) =
             reorg db (name t) @ [journal_insert (checkpoint db) (primaryKey t) v]"
    and "\<forall>old \<in> set (tables db (name t)). pk_equal t v old \<longrightarrow>
           res = [old ++ f old] \<and>
           tables db1 (name t) =
             map (\<lambda>r. if r = old then old ++ f old else r) (tables db (name t)) \<and>
           reorg db1 (name t) =
             reorg db (name t) @ [journal_before OpUpdate (checkpoint db) (primaryKey t) old]"
proof -
  let ?db0 = "issue (SqlSelect (name t) (key_cond t v)) db"
  show "(\<forall>r \<in> set (tables db (name t)). \<not> pk_equal t v r) \<longrightarrow>
           res = [v] \<and> tables db1 (name t) = tables db (name t) @ [v] \<and>
           reorg db1 (name t) =
             reorg db (name t) @ [journal_insert (checkpoint db) (primaryKey t) v]"
  proof
    assume "\<forall>r \<in> set (tables db (name t)). \<not> pk_equal t v r"
    then have "List.find (pk_equal t v) (tables db (name t)) = None"
      by (simp add: find_None_iff)
    with assms(3) have "drizzle_insert t [v] ?db0 = (Inr res, db1)"
      by (simp add: upsert_one_create [OF assms(1)] rethrow_eq_Inr)
    from drizzle_insert_success [OF this]
    show "res = [v] \<and> tables db1 (name t) = tables db (name t) @ [v] \<and>
           reorg db1 (name t) =
             reorg db (name t) @ [journal_insert (checkpoint db) (primaryKey t) v]"
      by simp
  qed
  show "\<forall>old \<in> set (tables db (name t)). pk_equal t v old \<longrightarrow>
           res = [old ++ f old] \<and>
           tables db1 (name t) =
             map (\<lambda>r. if r = old then old ++ f old else r) (tables db (name t)) \<and>
           reorg db1 (name t) =
             reorg db (name t) @ [journal_before OpUpdate (checkpoint db) (primaryKey t) old]"
  proof (intro ballI impI)
    fix old assume old: "old \<in> set (tables db (name t))" "pk_equal t v old"
    from find_the_row [OF assms(2) old] assms(3)
    have up: "drizzle_update t (f old) (key_cond t v) ?db0 = (Inr res, db1)"
      by (simp add: upsert_one_create [OF assms(1)] rethrow_eq_Inr)
    have wf0: "wf_table t ?db0" using assms(2) by simp
    from old(1) have old0: "old \<in> set (tables ?db0 (name t))" by simp
    from drizzle_update_success [OF up wf0 old0 old(2)]
    show "res = [old ++ f old] \<and>
           tables db1 (name t) =
             map (\<lambda>r. if r = old then old ++ f old else r) (tables db (name t)) \<and>
           reorg db1 (name t) =
             reorg db (name t) @ [journal_before OpUpdate (checkpoint db) (primaryKey t) old]"
      by simp
  qed
qed

lemma upsert_one_written:
  assumes "t \<in> set schema" and "wf_table t db"
    and "upsert_one (createRealtimeIndexingStore schema) t f v db = (Inr res, db1)"
  shows "\<exists>r j. res = [r] \<and> reorg db1 (name t) = reorg db (name t) @ [j] \<and>
               journal_row_of t (checkpoint db) r j"
proof (cases "\<exists>old \<in> set (tables db (name t)). pk_equal t v old")
  case True
  then obtain old where "old \<in> set (tables db (name t))" "pk_equal t v old" by blast
  with upsert_one_success(2) [OF assms]
  have "res = [old ++ f old]"
    and "reorg db1 (name t) =
      reorg db (name t) @ [journal_before OpUpdate (checkpoint db) (primaryKey t) old]"
    by blast+
  moreover have "journal_row_of t (checkpoint db) (old ++ f old)
      (journal_before OpUpdate (checkpoint db) (primaryKey t) old)"
    by (auto simp: journal_row_of_def)
  ultimately show ?thesis by blast
next
  case False
  with upsert_one_success(1) [OF assms]
  have "res = [v]"
    and "reorg db1 (name t) =
      reorg db (name t) @ [journal_insert (checkpoint db) (primaryKey t) v]"
    by blast+
  moreover have "journal_row_of t (checkpoint db) v
      (journal_insert (checkpoint db) (primaryKey t) v)"
    by (simp add: journal_row_of_def)
  ultimately show ?thesis by blast
qed

lemma upsert_loop_written:
  assumes "t \<in> set schema"
  shows "wf_table t db \<Longrightarrow>
    upsert_loop (createRealtimeIndexingStore schema) t f rows vs db = (Inr rss, db1) \<Longrightarrow>
    \<exists>rsn js. rss = rows @ rsn \<and> length rsn = length vs \<and>
      reorg db1 (name t) = reorg db (name t) @ js \<and>
      list_all2 (\<lambda>rs j. \<exists>r. rs = [r] \<and> journal_row_of t (checkpoint db) r j) rsn js"
proof (induction vs arbitrary: rows db)
  case Nil
  then show ?case by simp
next
  case (Cons v vs)
  let ?st = "createRealtimeIndexingStore schema"
  obtain p d where one: "upsert_one ?st t f v db = (p, d)" by (cases "upsert_one ?st t f v db")
  with Cons.prems(2) obtain res where p: "p = Inr res"
    and rest: "upsert_loop ?st t f (rows @ [res]) vs d = (Inr rss, db1)"
    by (cases p) auto
  from one p have one': "upsert_one ?st t f v db = (Inr res, d)" by simp
  from upsert_one_journalled(1,2) [OF assms Cons.prems(1), of f v] one
  have cp: "checkpoint d = checkpoint db" and wf: "wf_table t d"
    by (simp_all add: journalled_def)
  from upsert_one_written [OF assms Cons.prems(1) one'] obtain r j where
    rj: "res = [r]" "reorg d (name t) = reorg db (name t) @ [j]"
      "journal_row_of t (checkpoint db) r j"
    by blast
  from Cons.IH [OF wf rest] obtain rsn js where
    ih: "rss = (rows @ [res]) @ rsn" "length rsn = length vs"
      "reorg db1 (name t) = reorg d (name t) @ js"
      "list_all2 (\<lambda>rs j. \<exists>r. rs = [r] \<and> journal_row_of t (checkpoint d) r j) rsn js"
    by blast
  with rj cp show ?case
    by (intro exI [of _ "res # rsn"] exI [of _ "j # js"]) simp
qed

lemma writes_leave_journal_rows:
  assumes "t \<in> set schema" and "onchain t" and "wf_table t db"
  shows insert_written:
    "await (insert_then (createRealtimeIndexingStore schema) (Some t) values) db = (Inr res, db1) \<Longrightarrow>
     res = as_rows values \<and>
     tables db1 (name t) = tables db (name t) @ as_rows values \<and>
     reorg db1 (name t) =
       reorg db (name t) @ map (journal_insert (checkpoint db) (primaryKey t)) (as_rows values)"
  and do_nothing_written:
    "insert_onConflictDoNothing (createRealtimeIndexingStore schema) (Some t) values db =
       (Inr res, db1) \<Longrightarrow>
     tables db1 (name t) = tables db (name t) @ res \<and>
     reorg db1 (name t) =
       reorg db (name t) @ map (journal_insert (checkpoint db) (primaryKey t)) res"
  and upsert_object_written:
    "insert_onConflictDoUpdate (createRealtimeIndexingStore schema) (Some t) values (SetObject s) db =
       (Inr ures, db1) \<Longrightarrow>
     \<exists>out js. ures = Rows out \<and> length out = length (as_rows values) \<and>
       reorg db1 (name t) = reorg db (name t) @ js \<and>
       list_all2 (journal_row_of t (checkpoint db)) out js"
  and upsert_array_written:
    "upsert_fn schema t h (Array vs) db = (Inr ures, db1) \<Longrightarrow>
     \<exists>rss js. ures = RowsList rss \<and> length rss = length vs \<and>
       reorg db1 (name t) = reorg db (name t) @ js \<and>
       list_all2 (\<lambda>rs j. \<exists>r. rs = [r] \<and> journal_row_of t (checkpoint db) r j) rss js"
proof -
  let ?st = "createRealtimeIndexingStore schema"
  note mem = assms(1) and on = assms(2) and wf = assms(3)
  show "res = as_rows values \<and>
     tables db1 (name t) = tables db (name t) @ as_rows values \<and>
     reorg db1 (name t) =
       reorg db (name t) @ map (journal_insert (checkpoint db) (primaryKey t)) (as_rows values)"
    if "await (insert_then ?st (Some t) values) db = (Inr res, db1)"
  proof -
    from that have "drizzle_insert t (as_rows values) db = (Inr res, db1)"
      by (simp add: await_insert_then_onchain [OF on] rethrow_eq_Inr)
    from drizzle_insert_success [OF this] show ?thesis by simp
  qed
  show "tables db1 (name t) = tables db (name t) @ res \<and>
     reorg db1 (name t) =
       reorg db (name t) @ map (journal_insert (checkpoint db) (primaryKey t)) res"
    if "insert_onConflictDoNothing ?st (Some t) values db = (Inr res, db1)"
  proof -
    from that have "drizzle_insert_onConflictDoNothing t (as_rows values) db = (Inr res, db1)"
      by (simp add: insert_onConflictDoNothing_create [OF on] rethrow_eq_Inr)
    from drizzle_insert_onConflictDoNothing_success [OF this] show ?thesis by simp
  qed
  show "\<exists>out js. ures = Rows out \<and> length out = length (as_rows values) \<and>
       reorg db1 (name t) = reorg db (name t) @ js \<and>
       list_all2 (journal_row_of t (checkpoint db)) out js"
    if "insert_onConflictDoUpdate ?st (Some t) values (SetObject s) db = (Inr ures, db1)"
  proof -
    from that obtain out where out: "ures = Rows out"
      and "drizzle_insert_onConflictDoUpdate t (as_rows values) (primaryKey t) s db = (Inr out, db1)"
      by (auto simp: insert_onConflictDoUpdate_create [OF mem on] map_outcome_eq_Inr
          rethrow_eq_Inr)
    from drizzle_insert_onConflictDoUpdate_success [OF this(2)] out show ?thesis by blast
  qed
  show "\<exists>rss js. ures = RowsList rss \<and> length rss = length vs \<and>
       reorg db1 (name t) = reorg db (name t) @ js \<and>
       list_all2 (\<lambda>rs j. \<exists>r. rs = [r] \<and> journal_row_of t (checkpoint db) r j) rss js"
    if "upsert_fn schema t h (Array vs) db = (Inr ures, db1)"
  proof -
    from that obtain rss where rss: "ures = RowsList rss"
      and "upsert_loop ?st t h [] vs db = (Inr rss, db1)"
      by (auto simp: insert_onConflictDoUpdate_function_array [OF on] map_outcome_eq_Inr)
    from upsert_loop_written [OF mem wf this(2)] rss show ?thesis by auto
  qed
qed

lemma keyed_writes_leave_journal_rows:
  assumes "t \<in> set schema" and "onchain t" and "wf_table t db"
  shows upsert_single_written:
    "upsert_fn schema t h (Single v) db = (Inr ures, db1) \<Longrightarrow>
     ((\<forall>r \<in> set (tables db (name t)). \<not> pk_equal t v r) \<longrightarrow>
        ures = Rows [v] \<and> tables db1 (name t) = tables db (name t) @ [v] \<and>
        reorg db1 (name t) =
          reorg db (name t) @ [journal_insert (checkpoint db) (primaryKey t) v]) \<and>
     (\<forall>old \<in> set (tables db (name t)). pk_equal t v old \<longrightarrow>
        ures = Rows [old ++ h old] \<and>
        tables db1 (name t) =
          map (\<lambda>r. if r = old then old ++ h old else r) (tables db (name t)) \<and>
        reorg db1 (name t) =
          reorg db (name t) @ [journal_before OpUpdate (checkpoint db) (primaryKey t) old])"
  and update_written:
    "indexingStore_update (createRealtimeIndexingStore schema) (Some t) key sv db = (Inr res, db1) \<Longrightarrow>
     ((\<forall>r \<in> set (tables db (name t)). \<not> pk_equal t key r) \<longrightarrow>
        res = [] \<and> tables db1 = tables db \<and> reorg db1 = reorg db) \<and>
     (\<forall>old \<in> set (tables db (name t)). pk_equal t key old \<longrightarrow>
        res = [old ++ (case sv of SetObject s \<Rightarrow> s | SetFunction f \<Rightarrow> f old)] \<and>
        tables db1 (name t) =
          map (\<lambda>r. if r = old
                    then old ++ (case sv of SetObject s \<Rightarrow> s | SetFunction f \<Rightarrow> f old) else r)
            (tables db (name t)) \<and>
        reorg db1 (name t) =
          reorg db (name t) @ [journal_before OpUpdate (checkpoint db) (primaryKey t) old])"
  and delete_written:
    "indexingStore_delete (createRealtimeIndexingStore schema) (Some t) key db = (Inr b, db1) \<Longrightarrow>
     ((\<forall>r \<in> set (tables db (name t)). \<not> pk_equal t key r) \<longrightarrow>
        \<not> b \<and> tables db1 = tables db \<and> reorg db1 = reorg db) \<and>
     (\<forall>old \<in> set (tables db (name t)). pk_equal t key old \<longrightarrow>
        b \<and> tables db1 (name t) = filter (\<lambda>r. r \<noteq> old) (tables db (name t)) \<and>
        reorg db1 (name t) =
          reorg db (name t) @ [journal_before OpDelete (checkpoint db) (primaryKey t) old])"
proof -
  let ?st = "createRealtimeIndexingStore schema"
  let ?cur = "tables db (name t)"
  note mem = assms(1) and on = assms(2) and wf = assms(3)
  show "((\<forall>r \<in> set ?cur. \<not> pk_equal t v r) \<longrightarrow>
        ures = Rows [v] \<and> tables db1 (name t) = ?cur @ [v] \<and>
        reorg db1 (name t) =
          reorg db (name t) @ [journal_insert (checkpoint db) (primaryKey t) v]) \<and>
     (\<forall>old \<in> set ?cur. pk_equal t v old \<longrightarrow>
        ures = Rows [old ++ h old] \<and>
        tables db1 (name t) = map (\<lambda>r. if r = old then old ++ h old else r) ?cur \<and>
        reorg db1 (name t) =
          reorg db (name t) @ [journal_before OpUpdate (checkpoint db) (primaryKey t) old])"
    if "upsert_fn schema t h (Single v) db = (Inr ures, db1)"
  proof -
    from that obtain res where res: "ures = Rows res"
      and one: "upsert_one ?st t h v db = (Inr res, db1)"
      by (auto simp: insert_onConflictDoUpdate_function_single [OF on] map_outcome_eq_Inr)
    from upsert_one_success [OF mem wf one] res show ?thesis by simp
  qed
  show "((\<forall>r \<in> set ?cur. \<not> pk_equal t key r) \<longrightarrow>
        res = [] \<and> tables db1 = tables db \<and> reorg db1 = reorg db) \<and>
     (\<forall>old \<in> set ?cur. pk_equal t key old \<longrightarrow>
        res = [old ++ (case sv of SetObject s \<Rightarrow> s | SetFunction f \<Rightarrow> f old)] \<and>
        tables db1 (name t) =
          map (\<lambda>r. if r = old
                    then old ++ (case sv of SetObject s \<Rightarrow> s | SetFunction f \<Rightarrow> f old) else r)
            ?cur \<and>
        reorg db1 (name t) =
          reorg db (name t) @ [journal_before OpUpdate (checkpoint db) (primaryKey t) old])"
    if run: "indexingStore_update ?st (Some t) key sv db = (Inr res, db1)"
  proof (intro conjI impI ballI)
    assume none: "\<forall>r \<in> set ?cur. \<not> pk_equal t key r"
    then have nf: "List.find (pk_equal t key) ?cur = None" by (simp add: find_None_iff)
    from run nf obtain s where "sv = SetObject s"
      by (cases sv) (auto simp: indexingStore_update_create [OF mem on])
    with run drizzle_update_missing [OF none, of s]
    show "res = []" and "tables db1 = tables db" and "reorg db1 = reorg db"
      by (auto simp: indexingStore_update_create [OF mem on] rethrow_eq_Inr)
  next
    fix old assume old: "old \<in> set ?cur" "pk_equal t key old"
    let ?s = "case sv of SetObject s \<Rightarrow> s | SetFunction f \<Rightarrow> f old"
    have "\<exists>q. drizzle_update t ?s (key_cond t key) (issue q db) = (Inr res, db1) \<or>
              drizzle_update t ?s (key_cond t key) db = (Inr res, db1)"
      using run find_the_row [OF wf old]
      by (cases sv) (auto simp: indexingStore_update_create [OF mem on] rethrow_eq_Inr)
    then obtain d0 where d0: "drizzle_update t ?s (key_cond t key) d0 = (Inr res, db1)"
      and same: "tables d0 = tables db" "reorg d0 = reorg db" "checkpoint d0 = checkpoint db"
      by auto
    from wf same(1) have wf0: "wf_table t d0" by (simp add: wf_table_def)
    from old(1) same(1) have old0: "old \<in> set (tables d0 (name t))" by simp
    from drizzle_update_success [OF d0 wf0 old0 old(2)] same
    show "res = [old ++ ?s]"
      and "tables db1 (name t) = map (\<lambda>r. if r = old then old ++ ?s else r) ?cur"
      and "reorg db1 (name t) =
          reorg db (name t) @ [journal_before OpUpdate (checkpoint db) (primaryKey t) old]"
      by simp_all
  qed
  show "((\<forall>r \<in> set ?cur. \<not> pk_equal t key r) \<longrightarrow>
        \<not> b \<and> tables db1 = tables db \<and> reorg db1 = reorg db) \<and>
     (\<forall>old \<in> set ?cur. pk_equal t key old \<longrightarrow>
        b \<and> tables db1 (name t) = filter (\<lambda>r. r \<noteq> old) ?cur \<and>
        reorg db1 (name t) =
          reorg db (name t) @ [journal_before OpDelete (checkpoint db) (primaryKey t) old])"
    if run: "indexingStore_delete ?st (Some t) key db = (Inr b, db1)"
  proof -
    from run obtain deleted where del: "drizzle_delete t (key_cond t key) db = (deleted, db1)"
      and b: "b = (length deleted > 0)"
      by (auto simp: indexingStore_delete_def queue_add_def wrap_def
          checkOnchainTable_onchain [OF on] getWhereCondition_create [OF mem] key_cond_def
          split: prod.splits)
    show ?thesis
    proof (intro conjI impI ballI)
      assume none: "\<forall>r \<in> set ?cur. \<not> pk_equal t key r"
      then have "deleted = []"
        using del by (auto simp: drizzle_delete_def Let_def holds_key_cond [abs_def]
            filter_empty_conv)
      with b show "\<not> b" by simp
      from drizzle_delete_missing [OF none] del \<open>deleted = []\<close>
      show "tables db1 = tables db" and "reorg db1 = reorg db" by simp_all
    next
      fix old assume old: "old \<in> set ?cur" "pk_equal t key old"
      from drizzle_delete_success [OF del wf old] b
      show "b" and "tables db1 (name t) = filter (\<lambda>r. r \<noteq> old) ?cur"
        and "reorg db1 (name t) =
          reorg db (name t) @ [journal_before OpDelete (checkpoint db) (primaryKey t) old]"
        by simp_all
    qed
  qed
qed

text \<open>
  Claim C2. On an onchain table of the schema whose primary keys are distinct,
  every write of the store that succeeds has written its rows together with
  their journal rows, each with the checkpoint of the running event:
  \<^item> an insert that is awaited adds its rows to the table and one insert row per
    row to the journal, with the primary key of the row and no before image;
    \<^verbatim>\<open>onConflictDoNothing\<close> does so for the rows that it returns;
  \<^item> an update of a row that exists replaces that row by the row with the new
    values and adds one update row to the journal, with the primary key of the
    row and the row as it was as the before image; an update with an object that
    finds no row changes nothing;
  \<^item> a delete of a row that exists returns \<^verbatim>\<open>true\<close>, removes the row and adds one
    delete row to the journal, with the row as it was as the before image; a
    delete that finds no row returns \<^verbatim>\<open>false\<close> and changes nothing;
  \<^item> \<^verbatim>\<open>onConflictDoUpdate\<close> with a function on one row does what the insert does
    when no row matches, and what the update does on the row that matches; on an
    array, and with an object, it returns one result per value and adds one
    journal row per value, the journal row of the row that was written.
  Whatever the outcome, the journal rows added shadow the writes made to the
  table, one by one and in order, and no other table or journal changes. Every
  write is atomic: when it fails, the tables and the journals are as they were.
  The upsert of an array with a function, which runs one statement per row, is
  atomic row by row: when it fails, the tables and the journals are those left
  by the rows before the failing one.
\<close>

theorem writes_are_journalled:
  assumes "t \<in> set schema" and "onchain t" and "wf_table t db"
  shows
    "journalled t db (snd (insert_then (createRealtimeIndexingStore schema) (Some t) vals f g db)) \<and>
     atomic db (await (insert_then (createRealtimeIndexingStore schema) (Some t) vals) db) \<and>
     journalled t db
       (snd (insert_onConflictDoNothing (createRealtimeIndexingStore schema) (Some t) vals db)) \<and>
     atomic db (insert_onConflictDoNothing (createRealtimeIndexingStore schema) (Some t) vals db) \<and>
     journalled t db
       (snd (insert_onConflictDoUpdate (createRealtimeIndexingStore schema) (Some t) vals
               valuesU db)) \<and>
     atomic db (insert_onConflictDoUpdate (createRealtimeIndexingStore schema) (Some t) vals
                  (SetObject s) db) \<and>
     atomic db (insert_onConflictDoUpdate (createRealtimeIndexingStore schema) (Some t) (Single v)
                  (SetFunction h) db) \<and>
     (\<forall>e db1.
        insert_onConflictDoUpdate (createRealtimeIndexingStore schema) (Some t) (Array vs)
          (SetFunction h) db = (Inl e, db1) \<longrightarrow>
        (\<exists>k rss dbk. k < length vs \<and>
           insert_onConflictDoUpdate (createRealtimeIndexingStore schema) (Some t)
             (Array (take k vs)) (SetFunction h) db = (Inr (RowsList rss), dbk) \<and>
           tables db1 = tables dbk \<and> reorg db1 = reorg dbk)) \<and>
     journalled t db
       (snd (indexingStore_update (createRealtimeIndexingStore schema) (Some t) key sv db)) \<and>
     atomic db (indexingStore_update (createRealtimeIndexingStore schema) (Some t) key sv db) \<and>
     journalled t db
       (snd (indexingStore_delete (createRealtimeIndexingStore schema) (Some t) key db)) \<and>
     atomic db (indexingStore_delete (createRealtimeIndexingStore schema) (Some t) key db) \<and>
     (\<forall>res db1.
        await (insert_then (createRealtimeIndexingStore schema) (Some t) vals) db = (Inr res, db1) \<longrightarrow>
        res = as_rows vals \<and>
        tables db1 (name t) = tables db (name t) @ as_rows vals \<and>
        reorg db1 (name t) =
          reorg db (name t) @
          map (journal_insert (checkpoint db) (primaryKey t)) (as_rows vals)) \<and>
     (\<forall>res db1.
        insert_onConflictDoNothing (createRealtimeIndexingStore schema) (Some t) vals db =
          (Inr res, db1) \<longrightarrow>
        tables db1 (name t) = tables db (name t) @ res \<and>
        reorg db1 (name t) =
          reorg db (name t) @ map (journal_insert (checkpoint db) (primaryKey t)) res) \<and>
     (\<forall>ures db1.
        insert_onConflictDoUpdate (createRealtimeIndexingStore schema) (Some t) vals
          (SetObject s) db = (Inr ures, db1) \<longrightarrow>
        (\<exists>out js. ures = Rows out \<and> length out = length (as_rows vals) \<and>
           reorg db1 (name t) = reorg db (name t) @ js \<and>
           list_all2 (journal_row_of t (checkpoint db)) out js)) \<and>
     (\<forall>ures db1.
        upsert_fn schema t h (Single v) db = (Inr ures, db1) \<longrightarrow>
        ((\<forall>r \<in> set (tables db (name t)). \<not> pk_equal t v r) \<longrightarrow>
           ures = Rows [v] \<and> tables db1 (name t) = tables db (name t) @ [v] \<and>
           reorg db1 (name t) =
             reorg db (name t) @ [journal_insert (checkpoint db) (primaryKey t) v]) \<and>
        (\<forall>old \<in> set (tables db (name t)). pk_equal t v old \<longrightarrow>
           ures = Rows [old ++ h old] \<and>
           tables db1 (name t) =
             map (\<lambda>r. if r = old then old ++ h old else r) (tables db (name t)) \<and>
           reorg db1 (name t) =
             reorg db (name t) @
             [journal_before OpUpdate (checkpoint db) (primaryKey t) old])) \<and>
     (\<forall>ures db1.
        upsert_fn schema t h (Array vs) db = (Inr ures, db1) \<longrightarrow>
        (\<exists>rss js. ures = RowsList rss \<and> length rss = length vs \<and>
           reorg db1 (name t) = reorg db (name t) @ js \<and>
           list_all2 (\<lambda>rs j. \<exists>r. rs = [r] \<and> journal_row_of t (checkpoint db) r j) rss js)) \<and>
     (\<forall>res db1.
        indexingStore_update (createRealtimeIndexingStore schema) (Some t) key sv db =
          (Inr res, db1) \<longrightarrow>
        ((\<forall>r \<in> set (tables db (name t)). \<not> pk_equal t key r) \<longrightarrow>
           res = [] \<and> tables db1 = tables db \<and> reorg db1 = reorg db) \<and>
        (\<forall>old \<in> set (tables db (name t)). pk_equal t key old \<longrightarrow>
           res = [old ++ (case sv of SetObject s \<Rightarrow> s | SetFunction f \<Rightarrow> f old)] \<and>
           tables db1 (name t) =
             map (\<lambda>r. if r = old
                       then old ++ (case sv of SetObject s \<Rightarrow> s | SetFunction f \<Rightarrow> f old)
                       else r)
               (tables db (name t)) \<and>
           reorg db1 (name t) =
             reorg db (name t) @
             [journal_before OpUpdate (checkpoint db) (primaryKey t) old])) \<and>
     (\<forall>b db1.
        indexingStore_delete (createRealtimeIndexingStore schema) (Some t) key db =
          (Inr b, db1) \<longrightarrow>
        ((\<forall>r \<in> set (tables db (name t)). \<not> pk_equal t key r) \<longrightarrow>
           \<not> b \<and> tables db1 = tables db \<and> reorg db1 = reorg db) \<and>
        (\<forall>old \<in> set (tables db (name t)). pk_equal t key old \<longrightarrow>
           b \<and> tables db1 (name t) = filter (\<lambda>r. r \<noteq> old) (tables db (name t)) \<and>
           reorg db1 (name t) =
             reorg db (name t) @
             [journal_before OpDelete (checkpoint db) (primaryKey t) old]))"
proof -
  note written = writes_leave_journal_rows [OF assms]
  note keyed = keyed_writes_leave_journal_rows [OF assms]
  have shadowed:
    "journalled t db (snd (insert_then (createRealtimeIndexingStore schema) (Some t) vals f g db)) \<and>
     atomic db (await (insert_then (createRealtimeIndexingStore schema) (Some t) vals) db) \<and>
     journalled t db
       (snd (insert_onConflictDoNothing (createRealtimeIndexingStore schema) (Some t) vals db)) \<and>
     atomic db (insert_onConflictDoNothing (createRealtimeIndexingStore schema) (Some t) vals db) \<and>
     journalled t db
       (snd (insert_onConflictDoUpdate (createRealtimeIndexingStore schema) (Some t) vals
               valuesU db)) \<and>
     atomic db (insert_onConflictDoUpdate (createRealtimeIndexingStore schema) (Some t) vals
                  (SetObject s) db) \<and>
     atomic db (insert_onConflictDoUpdate (createRealtimeIndexingStore schema) (Some t) (Single v)
                  (SetFunction h) db) \<and>
     (\<forall>e db1.
        insert_onConflictDoUpdate (createRealtimeIndexingStore schema) (Some t) (Array vs)
          (SetFunction h) db = (Inl e, db1) \<longrightarrow>
        (\<exists>k rss dbk. k < length vs \<and>
           insert_onConflictDoUpdate (createRealtimeIndexingStore schema) (Some t)
             (Array (take k vs)) (SetFunction h) db = (Inr (RowsList rss), dbk) \<and>
           tables db1 = tables dbk \<and> reorg db1 = reorg dbk)) \<and>
     journalled t db
       (snd (indexingStore_update (createRealtimeIndexingStore schema) (Some t) key sv db)) \<and>
     atomic db (indexingStore_update (createRealtimeIndexingStore schema) (Some t) key sv db) \<and>
     journalled t db
       (snd (indexingStore_delete (createRealtimeIndexingStore schema) (Some t) key db)) \<and>
     atomic db (indexingStore_delete (createRealtimeIndexingStore schema) (Some t) key db)"
    by (rule writes_journalled_and_atomic [OF assms])
  have c1:
    "(\<forall>res db1.
        await (insert_then (createRealtimeIndexingStore schema) (Some t) vals) db = (Inr res, db1) \<longrightarrow>
        res = as_rows vals \<and>
        tables db1 (name t) = tables db (name t) @ as_rows vals \<and>
        reorg db1 (name t) =
          reorg db (name t) @
          map (journal_insert (checkpoint db) (primaryKey t)) (as_rows vals))"
    using written(1) by blast
  have c2:
    "(\<forall>res db1.
        insert_onConflictDoNothing (createRealtimeIndexingStore schema) (Some t) vals db =
          (Inr res, db1) \<longrightarrow>
        tables db1 (name t) = tables db (name t) @ res \<and>
        reorg db1 (name t) =
          reorg db (name t) @ map (journal_insert (checkpoint db) (primaryKey t)) res)"
    using written(2) by blast
  have c3:
    "(\<forall>ures db1.
        insert_onConflictDoUpdate (createRealtimeIndexingStore schema) (Some t) vals
          (SetObject s) db = (Inr ures, db1) \<longrightarrow>
        (\<exists>out js. ures = Rows out \<and> length out = length (as_rows vals) \<and>
           reorg db1 (name t) = reorg db (name t) @ js \<and>
           list_all2 (journal_row_of t (checkpoint db)) out js))"
    using written(3) by blast
  have c4:
    "(\<forall>ures db1.
        upsert_fn schema t h (Single v) db = (Inr ures, db1) \<longrightarrow>
        ((\<forall>r \<in> set (tables db (name t)). \<not> pk_equal t v r) \<longrightarrow>
           ures = Rows [v] \<and> tables db1 (name t) = tables db (name t) @ [v] \<and>
           reorg db1 (name t) =
             reorg db (name t) @ [journal_insert (checkpoint db) (primaryKey t) v]) \<and>
        (\<forall>old \<in> set (tables db (name t)). pk_equal t v old \<longrightarrow>
           ures = Rows [old ++ h old] \<and>
           tables db1 (name t) =
             map (\<lambda>r. if r = old then old ++ h old else r) (tables db (name t)) \<and>
           reorg db1 (name t) =
             reorg db (name t) @
             [journal_before OpUpdate (checkpoint db) (primaryKey t) old]))"
    using keyed(1) by blast
  have c5:
    "(\<forall>ures db1.
        upsert_fn schema t h (Array vs) db = (Inr ures, db1) \<longrightarrow>
        (\<exists>rss js. ures = RowsList rss \<and> length rss = length vs \<and>
           reorg db1 (name t) = reorg db (name t) @ js \<and>
           list_all2 (\<lambda>rs j. \<exists>r. rs = [r] \<and> journal_row_of t (checkpoint db) r j) rss js))"
    using written(4) by blast
  have c6:
    "(\<forall>res db1.
        indexingStore_update (createRealtimeIndexingStore schema) (Some t) key sv db =
          (Inr res, db1) \<longrightarrow>
        ((\<forall>r \<in> set (tables db (name t)). \<not> pk_equal t key r) \<longrightarrow>
           res = [] \<and> tables db1 = tables db \<and> reorg db1 = reorg db) \<and>
        (\<forall>old \<in> set (tables db (name t)). pk_equal t key old \<longrightarrow>
           res = [old ++ (case sv of SetObject s \<Rightarrow> s | SetFunction f \<Rightarrow> f old)] \<and>
           tables db1 (name t) =
             map (\<lambda>r. if r = old
                       then old ++ (case sv of SetObject s \<Rightarrow> s | SetFunction f \<Rightarrow> f old)
                       else r)
               (tables db (name t)) \<and>
           reorg db1 (name t) =
             reorg db (name t) @
             [journal_before OpUpdate (checkpoint db) (primaryKey t) old]))"
    using keyed(2) by blast
  have c7:
    "(\<forall>b db1.
        indexingStore_delete (createRealtimeIndexingStore schema) (Some t) key db =
          (Inr b, db1) \<longrightarrow>
        ((\<forall>r \<in> set (tables db (name t)). \<not> pk_equal t key r) \<longrightarrow>
           \<not> b \<and> tables db1 = tables db \<and> reorg db1 = reorg db) \<and>
        (\<forall>old \<in> set (tables db (name t)). pk_equal t key old \<longrightarrow>
           b \<and> tables db1 (name t) = filter (\<lambda>r. r \<noteq> old) (tables db (name t)) \<and>
           reorg db1 (name t) =
             reorg db (name t) @
             [journal_before OpDelete (checkpoint db) (primaryKey t) old]))"
    using keyed(3) by blast
  from shadowed c1 c2 c3 c4 c5 c6 c7 show ?thesis
    apply (elim conjE)
    apply (intro conjI)
    apply assumption+
    done
qed

theorem writes_are_journalled_witness:
  "wf_table accounts db_alice \<and>
   journalled accounts db_alice
     (snd (indexingStore_delete (createRealtimeIndexingStore [accounts]) (Some accounts)
             alice_key db_alice)) \<and>
   atomic db_alice
     (await (insert_then (createRealtimeIndexingStore [accounts]) (Some accounts) (Single alice))
        db_alice) \<and>
   (\<exists>db1. await (insert_then (createRealtimeIndexingStore [accounts]) (Some accounts) (Single bob))
            db_alice = (Inr [bob], db1) \<and>
          tables db1 ''b83f__accounts'' = [alice, bob] \<and>
          reorg db1 ''b83f__accounts'' =
            [\<lparr>operation = OpInsert, jcheckpoint = (1, 1000, 100, 0, 0),
              primary_key = [Some (VText ''0xb'')], before_image = None\<rparr>]) \<and>
   (\<exists>db1. indexingStore_update (createRealtimeIndexingStore [accounts]) (Some accounts) alice_key
            (SetObject [''balance'' \<mapsto> VInt 5]) db_alice =
            (Inr [alice ++ [''balance'' \<mapsto> VInt 5]], db1) \<and>
          tables db1 ''b83f__accounts'' = [alice ++ [''balance'' \<mapsto> VInt 5]] \<and>
          reorg db1 ''b83f__accounts'' =
            [\<lparr>operation = OpUpdate, jcheckpoint = (1, 1000, 100, 0, 0),
              primary_key = [Some (VText ''0xa'')], before_image = Some alice\<rparr>]) \<and>
   (\<exists>db1. indexingStore_delete (createRealtimeIndexingStore [accounts]) (Some accounts) alice_key
            db_alice = (Inr True, db1) \<and>
          tables db1 ''b83f__accounts'' = [] \<and>
          reorg db1 ''b83f__accounts'' =
            [\<lparr>operation = OpDelete, jcheckpoint = (1, 1000, 100, 0, 0),
              primary_key = [Some (VText ''0xa'')], before_image = Some alice\<rparr>])"
proof -
  let ?st = "createRealtimeIndexingStore [accounts]"
  let ?s = "[''balance'' \<mapsto> VInt 5]"
  have mem: "accounts \<in> set [accounts]" by simp
  have on: "onchain accounts" by (simp add: accounts_def)
  have wf: "wf_table accounts db_alice"
    by (simp add: wf_table_def db_alice_def accounts_def)
  have n: "name accounts = ''b83f__accounts''" and pk: "primaryKey accounts = [''address'']"
    by (simp_all add: accounts_def)
  have rows: "tables db_alice ''b83f__accounts'' = [alice]" by (simp add: db_alice_def)
  have no_journal: "reorg db_alice ''b83f__accounts'' = []" by (simp add: db_alice_def db0_def)
  have cp: "checkpoint db_alice = (1, 1000, 100, 0, 0)" by (simp add: db_alice_def db0_def)
  have m: "pk_equal accounts alice_key alice"
    by (simp add: pk_equal_def accounts_def alice_key_def alice_def)
  have pk_a: "pk_of [''address''] alice = [Some (VText ''0xa'')]"
    and pk_b: "pk_of [''address''] bob = [Some (VText ''0xb'')]"
    by (simp_all add: pk_of_def alice_def bob_def)
  have bound_b: "bob ''address'' = Some (VText ''0xb'')" by (simp add: bob_def)
  note inst = writes_are_journalled [OF mem on wf, where vals = "Single bob" and s = ?s
      and key = alice_key and sv = "SetObject ?s" and f = None and g = None
      and valuesU = "SetObject ?s" and v = bob and h = "\<lambda>r. r" and vs = "[]"]
  (* the general facts, at this input *)
  from inst have inserted: "\<forall>res db1.
      await (insert_then ?st (Some accounts) (Single bob)) db_alice = (Inr res, db1) \<longrightarrow>
      res = as_rows (Single bob) \<and>
      tables db1 (name accounts) = tables db_alice (name accounts) @ as_rows (Single bob) \<and>
      reorg db1 (name accounts) =
        reorg db_alice (name accounts) @
        map (journal_insert (checkpoint db_alice) (primaryKey accounts)) (as_rows (Single bob))"
    by - (elim conjE, assumption)
  from inst have updated: "\<forall>res db1.
      indexingStore_update ?st (Some accounts) alice_key (SetObject ?s) db_alice = (Inr res, db1) \<longrightarrow>
      ((\<forall>r \<in> set (tables db_alice (name accounts)). \<not> pk_equal accounts alice_key r) \<longrightarrow>
         res = [] \<and> tables db1 = tables db_alice \<and> reorg db1 = reorg db_alice) \<and>
      (\<forall>old \<in> set (tables db_alice (name accounts)). pk_equal accounts alice_key old \<longrightarrow>
         res = [old ++ (case SetObject ?s of SetObject s \<Rightarrow> s | SetFunction f \<Rightarrow> f old)] \<and>
         tables db1 (name accounts) =
           map (\<lambda>r. if r = old
                     then old ++ (case SetObject ?s of SetObject s \<Rightarrow> s | SetFunction f \<Rightarrow> f old)
                     else r)
             (tables db_alice (name accounts)) \<and>
         reorg db1 (name accounts) =
           reorg db_alice (name accounts) @
           [journal_before OpUpdate (checkpoint db_alice) (primaryKey accounts) old])"
    by - (elim conjE, assumption)
  from inst have deleted: "\<forall>b db1.
      indexingStore_delete ?st (Some accounts) alice_key db_alice = (Inr b, db1) \<longrightarrow>
      ((\<forall>r \<in> set (tables db_alice (name accounts)). \<not> pk_equal accounts alice_key r) \<longrightarrow>
         \<not> b \<and> tables db1 = tables db_alice \<and> reorg db1 = reorg db_alice) \<and>
      (\<forall>old \<in> set (tables db_alice (name accounts)). pk_equal accounts alice_key old \<longrightarrow>
         b \<and> tables db1 (name accounts) = filter (\<lambda>r. r \<noteq> old) (tables db_alice (name accounts)) \<and>
         reorg db1 (name accounts) =
           reorg db_alice (name accounts) @
           [journal_before OpDelete (checkpoint db_alice) (primaryKey accounts) old])"
    by - (elim conjE, assumption)
  from inst have j: "journalled accounts db_alice
      (snd (indexingStore_delete ?st (Some accounts) alice_key db_alice))"
    by - (elim conjE, assumption)
  from writes_are_journalled [OF mem on wf, where vals = "Single alice" and s = ?s
      and key = alice_key and sv = "SetObject ?s" and f = None and g = None
      and valuesU = "SetObject ?s" and v = bob and h = "\<lambda>r. r" and vs = "[]"]
  have a: "atomic db_alice (await (insert_then ?st (Some accounts) (Single alice)) db_alice)"
    by - (elim conjE, assumption)
  (* the insert of bob succeeds *)
  obtain p1 d1 where run1: "await (insert_then ?st (Some accounts) (Single bob)) db_alice = (p1, d1)"
    by (cases "await (insert_then ?st (Some accounts) (Single bob)) db_alice")
  have "fst (await (insert_then ?st (Some accounts) (Single bob)) db_alice) = Inr [bob]"
    using bound_b
    by (simp add: await_insert_then_onchain [OF on] drizzle_insert_def Let_def n pk rows pk_a pk_b
        rethrow_def)
  with run1 have run1: "await (insert_then ?st (Some accounts) (Single bob)) db_alice = (Inr [bob], d1)"
    by simp
  with inserted have i: "tables d1 ''b83f__accounts'' = [alice, bob]"
    "reorg d1 ''b83f__accounts'' =
       [\<lparr>operation = OpInsert, jcheckpoint = (1, 1000, 100, 0, 0),
         primary_key = [Some (VText ''0xb'')], before_image = None\<rparr>]"
    by (auto simp: n pk rows no_journal cp journal_insert_def pk_b)
  (* the update of alice succeeds *)
  obtain p2 d2 where run2: "indexingStore_update ?st (Some accounts) alice_key (SetObject ?s)
      db_alice = (p2, d2)"
    by (cases "indexingStore_update ?st (Some accounts) alice_key (SetObject ?s) db_alice")
  have h: "holds (key_cond accounts alice_key) alice"
    using m by (simp add: holds_key_cond)
  have "fst (indexingStore_update ?st (Some accounts) alice_key (SetObject ?s) db_alice) =
      Inr [alice ++ ?s]"
    by (simp add: indexingStore_update_create [OF mem on] drizzle_update_def Let_def n pk rows h
        [unfolded n] rethrow_def)
  with run2 have run2: "indexingStore_update ?st (Some accounts) alice_key (SetObject ?s)
      db_alice = (Inr [alice ++ ?s], d2)"
    by simp
  with updated m have u: "tables d2 ''b83f__accounts'' = [alice ++ ?s]"
    "reorg d2 ''b83f__accounts'' =
       [\<lparr>operation = OpUpdate, jcheckpoint = (1, 1000, 100, 0, 0),
         primary_key = [Some (VText ''0xa'')], before_image = Some alice\<rparr>]"
    by (auto simp: n pk rows no_journal cp journal_before_def pk_a)
  (* the delete of alice succeeds *)
  obtain d3 where run3: "indexingStore_delete ?st (Some accounts) alice_key db_alice = (Inr True, d3)"
    using m by (simp add: indexingStore_delete_create [OF mem on] n rows)
  with deleted m have dl: "tables d3 ''b83f__accounts'' = []"
    "reorg d3 ''b83f__accounts'' =
       [\<lparr>operation = OpDelete, jcheckpoint = (1, 1000, 100, 0, 0),
         primary_key = [Some (VText ''0xa'')], before_image = Some alice\<rparr>]"
    by (auto simp: n pk rows no_journal cp journal_before_def pk_a)
  from wf j a run1 i run2 u run3 dl show ?thesis by blast
qed

text \<open>
  The hypothesis of distinct primary keys is an invariant of the store: every
  write keeps it.
\<close>

lemma writes_keep_primary_keys_distinct:
  assumes "t \<in> set schema" and "onchain t" and "wf_table t db"
  shows "wf_table t (snd (insert_then (createRealtimeIndexingStore schema) (Some t) values f g db))"
    and "wf_table t
           (snd (insert_onConflictDoNothing (createRealtimeIndexingStore schema) (Some t) values db))"
    and "wf_table t
           (snd (insert_onConflictDoUpdate (createRealtimeIndexingStore schema) (Some t) values
                   valuesU db))"
    and "wf_table t
           (snd (indexingStore_update (createRealtimeIndexingStore schema) (Some t) key sv db))"
    and "wf_table t
           (snd (indexingStore_delete (createRealtimeIndexingStore schema) (Some t) key db))"
proof -
  let ?st = "createRealtimeIndexingStore schema"
  note mem = assms(1) and on = assms(2) and wf = assms(3)
  show "wf_table t (snd (insert_then ?st (Some t) values f g db))"
    by (simp add: insert_then_onchain [OF on] drizzle_insert_wf [OF wf])
  show "wf_table t (snd (insert_onConflictDoNothing ?st (Some t) values db))"
    by (simp add: insert_onConflictDoNothing_create [OF on]
        drizzle_insert_onConflictDoNothing_wf [OF wf])
  show "wf_table t (snd (insert_onConflictDoUpdate ?st (Some t) values valuesU db))"
    using drizzle_insert_onConflictDoUpdate_journalled [OF wf]
      upsert_loop_journalled [OF mem wf] upsert_one_journalled(2) [OF mem wf]
    by (simp add: insert_onConflictDoUpdate_create [OF mem on]
        split: set_values.splits insert_values.splits)
  have "wf_table t (issue (SqlSelect (name t) (key_cond t key)) db)" using wf by simp
  from drizzle_update_wf [OF this] drizzle_update_wf [OF wf]
  show "wf_table t (snd (indexingStore_update ?st (Some t) key sv db))"
    using wf
    by (simp add: indexingStore_update_create [OF mem on] split: set_values.splits option.splits)
  show "wf_table t (snd (indexingStore_delete ?st (Some t) key db))"
    using drizzle_delete_wf [OF wf, of "key_cond t key"]
    by (auto simp: indexingStore_delete_def queue_add_def wrap_def checkOnchainTable_onchain [OF on]
        getWhereCondition_create [OF mem] key_cond_def split: prod.splits)
qed

end
